theory Spec2Isabelle
  imports Complex_Main "HOL-Library.Product_Lexorder" "HOL-Library.Sublist" "HOL-Library.Multiset"
begin

section \<open>Text primitives\<close>

text \<open>
  Texts are modelled as ASCII strings: \<open>str.lower\<close>, \<open>str.isalpha\<close>, \<open>str.strip\<close>,
  \<open>str.split\<close> and the regular-expression classes \<open>\w\<close> and \<open>\s\<close> are given on the
  ASCII range, where they are fixed by the language; a character outside that range is
  taken to be neither a letter, a word character nor white space. Python floats (bounding
  box coordinates, scores) are idealised as reals.
\<close>

definition is_space :: "char \<Rightarrow> bool" where
  "is_space c = (c \<in> set [CHR 0x09, CHR 0x0A, CHR 0x0B, CHR 0x0C, CHR 0x0D,
                            CHR 0x1C, CHR 0x1D, CHR 0x1E, CHR 0x1F, CHR '' ''])"

definition strip :: "string \<Rightarrow> string" where
  "strip s = rev (dropWhile is_space (rev (dropWhile is_space s)))"

fun str_join :: "string \<Rightarrow> string list \<Rightarrow> string" where
  "str_join sep [] = []"
| "str_join sep [x] = x"
| "str_join sep (x # y # ys) = x @ sep @ str_join sep (y # ys)"

section \<open>Layout primitives supplied by the PDF library\<close>

text \<open>
  \<open>page.get_text("dict")\<close> gives, per page, a list of blocks; a block has a type (0 for
  text), a bounding box \<open>(x0, y0, x1, y1)\<close> and lines; a line has a bounding box and
  spans, of which only the text is read. The outline is what
  \<open>extract_outline_from_pdf\<close> returns: heading text, level and page.
\<close>

type_synonym bbox = "real \<times> real \<times> real \<times> real"

definition bbox_top :: "bbox \<Rightarrow> real" where
  "bbox_top b = fst (snd b)"

definition bbox_bottom :: "bbox \<Rightarrow> real" where
  "bbox_bottom b = snd (snd (snd b))"

record line =
  line_bbox :: bbox
  line_spans :: "string list"

record block =
  block_type :: int
  block_bbox :: bbox
  block_lines :: "line list"

type_synonym page = "block list"
type_synonym pdf_doc = "page list"

record outline_entry =
  h_text :: string
  h_level :: string
  h_page :: int

section \<open>Document sectioning\<close>

datatype content_item =
    TextItem string int bbox
  | HeadingMarker string string int

fun item_page :: "content_item \<Rightarrow> int" where
  "item_page (TextItem t p b) = p"
| "item_page (HeadingMarker t l p) = p"

fun item_bbox :: "content_item \<Rightarrow> bbox" where
  "item_bbox (TextItem t p b) = b"
| "item_bbox (HeadingMarker t l p) = (0, 0, 0, 0)"

fun is_text :: "content_item \<Rightarrow> bool" where
  "is_text (TextItem t p b) = True"
| "is_text (HeadingMarker t l p) = False"

fun text_of :: "content_item \<Rightarrow> string" where
  "text_of (TextItem t p b) = t"
| "text_of (HeadingMarker t l p) = t"

record section_rec =
  document :: string
  page_number :: int
  section_title :: string
  section_text :: string
  level :: string

definition np_mean :: "real list \<Rightarrow> real" where
  "np_mean xs = sum_list xs / real (length xs)"

definition text_blocks :: "page \<Rightarrow> block list" where
  "text_blocks pg = filter (\<lambda>b. block_type b = 0) pg"

definition line_heights :: "page \<Rightarrow> real list" where
  "line_heights pg =
     concat (map (\<lambda>b. map (\<lambda>l. bbox_bottom (line_bbox l) - bbox_top (line_bbox l)) (block_lines b))
                 (text_blocks pg))"

definition block_text :: "block \<Rightarrow> string" where
  "block_text b = concat (map (\<lambda>l. concat (line_spans l)) (block_lines b))"

definition page_items :: "nat \<Rightarrow> page \<Rightarrow> content_item list" where
  "page_items page_num pg =
     map (\<lambda>b. TextItem (strip (block_text b)) (int page_num + 1) (block_bbox b))
         (filter (\<lambda>b. strip (block_text b) \<noteq> []) (text_blocks pg))"

text \<open>
  The loop over the pages (lines 90 to 110): it carries the page index, the variable
  \<open>avg_line_height\<close>, overwritten by every page that has a line, and the list of
  content items.
\<close>

fun page_loop :: "nat \<Rightarrow> real \<Rightarrow> content_item list \<Rightarrow> pdf_doc \<Rightarrow> real \<times> content_item list" where
  "page_loop page_num avg_line_height items [] = (avg_line_height, items)"
| "page_loop page_num avg_line_height items (pg # pgs) =
     page_loop (Suc page_num)
       (if line_heights pg \<noteq> [] then np_mean (line_heights pg) else avg_line_height)
       (items @ page_items page_num pg) pgs"

definition heading_item :: "outline_entry \<Rightarrow> content_item" where
  "heading_item h = HeadingMarker (h_text h) (h_level h) (h_page h)"

definition sort_items :: "content_item list \<Rightarrow> content_item list" where
  "sort_items items = sort_key (\<lambda>x. (item_page x, bbox_top (item_bbox x))) items"

definition all_content_items :: "outline_entry list \<Rightarrow> pdf_doc \<Rightarrow> content_item list" where
  "all_content_items outline doc =
     sort_items (snd (page_loop 0 12 [] doc) @ map heading_item outline)"

definition gap_threshold :: "pdf_doc \<Rightarrow> real" where
  "gap_threshold doc = fst (page_loop 0 12 [] doc) * 2.5"

record sect_state =
  doc_sections :: "section_rec list"
  current_section_title :: string
  current_section_level :: string
  current_section_text_parts :: "string list"
  current_section_start_page :: int

definition init_state :: sect_state where
  "init_state = \<lparr>doc_sections = [], current_section_title = ''Document Start'',
     current_section_level = ''H0'', current_section_text_parts = [],
     current_section_start_page = 1\<rparr>"

definition current_section :: "string \<Rightarrow> sect_state \<Rightarrow> section_rec" where
  "current_section name st =
     \<lparr>document = name, page_number = current_section_start_page st,
      section_title = current_section_title st,
      section_text = str_join [CHR 0x0A] (current_section_text_parts st),
      level = current_section_level st\<rparr>"

fun gap_break :: "real \<Rightarrow> content_item option \<Rightarrow> content_item \<Rightarrow> bool" where
  "gap_break thr (Some (TextItem pt pp pb)) (TextItem t p b) =
     (pp = p \<and> bbox_top b - bbox_bottom pb > thr)"
| "gap_break thr prev item = False"

fun is_section_break :: "real \<Rightarrow> content_item option \<Rightarrow> content_item \<Rightarrow> bool" where
  "is_section_break thr prev (HeadingMarker t l p) = True"
| "is_section_break thr prev (TextItem t p b) = gap_break thr prev (TextItem t p b)"

definition flush :: "string \<Rightarrow> sect_state \<Rightarrow> sect_state" where
  "flush name st =
     (if current_section_text_parts st \<noteq> []
      then st\<lparr>doc_sections := doc_sections st @ [current_section name st],
              current_section_text_parts := []\<rparr>
      else st)"

fun adopt :: "bool \<Rightarrow> content_item \<Rightarrow> sect_state \<Rightarrow> sect_state" where
  "adopt brk (HeadingMarker t l p) st =
     st\<lparr>current_section_title := t, current_section_level := l,
        current_section_start_page := p\<rparr>"
| "adopt brk (TextItem t p b) st =
     (let st' = (if brk then st\<lparr>current_section_title := ''Content'',
                                 current_section_start_page := p\<rparr> else st)
      in st'\<lparr>current_section_text_parts := current_section_text_parts st' @ [t]\<rparr>)"

definition section_step :: "string \<Rightarrow> real \<Rightarrow> content_item option \<Rightarrow> sect_state \<Rightarrow> content_item \<Rightarrow> sect_state" where
  "section_step name thr prev st item =
     (let brk = is_section_break thr prev item
      in adopt brk item (if brk then flush name st else st))"

fun section_loop :: "string \<Rightarrow> real \<Rightarrow> content_item option \<Rightarrow> sect_state \<Rightarrow> content_item list \<Rightarrow> sect_state" where
  "section_loop name thr prev st [] = st"
| "section_loop name thr prev st (item # items) =
     section_loop name thr (Some item) (section_step name thr prev st item) items"

definition sectionize :: "string \<Rightarrow> real \<Rightarrow> content_item list \<Rightarrow> section_rec list" where
  "sectionize name thr items = doc_sections (flush name (section_loop name thr None init_state items))"

definition extract_document_sections :: "string \<Rightarrow> outline_entry list \<Rightarrow> pdf_doc \<Rightarrow> section_rec list" where
  "extract_document_sections name outline doc =
     sectionize name (gap_threshold doc) (all_content_items outline doc)"

section \<open>Tokenising\<close>

definition ascii_lowercase :: string where
  "ascii_lowercase = ''abcdefghijklmnopqrstuvwxyz''"

definition ascii_uppercase :: string where
  "ascii_uppercase = ''ABCDEFGHIJKLMNOPQRSTUVWXYZ''"

definition digits :: string where
  "digits = ''0123456789''"

definition lower_char :: "char \<Rightarrow> char" where
  "lower_char c = (case map_of (zip ascii_uppercase ascii_lowercase) c of Some d \<Rightarrow> d | None \<Rightarrow> c)"

definition lower :: "string \<Rightarrow> string" where
  "lower s = map lower_char s"

definition is_alpha :: "char \<Rightarrow> bool" where
  "is_alpha c = (c \<in> set (ascii_lowercase @ ascii_uppercase))"

definition isalpha :: "string \<Rightarrow> bool" where
  "isalpha w = (w \<noteq> [] \<and> list_all is_alpha w)"

definition is_word_char :: "char \<Rightarrow> bool" where
  "is_word_char c = (c \<in> set (ascii_lowercase @ ascii_uppercase @ digits @ ''_''))"

text \<open>
  The maximal runs of characters that satisfy \<open>P\<close>, from left to right. With the word
  characters this is \<open>re.findall(r'\b\w+\b', s)\<close>: a match starts at a word boundary,
  takes word characters greedily and must end at a word boundary, so it is a whole run.
  With the characters that are not white space it is \<open>s.split()\<close>.
\<close>

function runs :: "(char \<Rightarrow> bool) \<Rightarrow> string \<Rightarrow> string list" where
  "runs P [] = []"
| "runs P (c # cs) =
     (if P c then (c # takeWhile P cs) # runs P (dropWhile P cs) else runs P cs)"
  by pat_completeness auto
termination
  by (relation "measure (\<lambda>(P, s). length s)") (auto simp: less_Suc_eq_le length_dropWhile_le)

definition findall_words :: "string \<Rightarrow> string list" where
  "findall_words s = runs is_word_char s"

definition str_split :: "string \<Rightarrow> string list" where
  "str_split s = runs (\<lambda>c. \<not> is_space c) s"

text \<open>
  \<open>re.findall(r'\b\w{3,15}\b', s)\<close>: between two word boundaries the bounded repetition
  can only match a whole run of word characters, so the matches are the runs of 3 to 15
  characters; a longer run gives no match at all.
\<close>

definition findall_words_3_15 :: "string \<Rightarrow> string list" where
  "findall_words_3_15 s = filter (\<lambda>w. 3 \<le> length w \<and> length w \<le> 15) (runs is_word_char s)"

text \<open>Python's \<open>kw in text\<close> on strings: \<open>kw\<close> occurs in \<open>text\<close> as a substring.\<close>

fun is_substring :: "string \<Rightarrow> string \<Rightarrow> bool" where
  "is_substring kw [] = (kw = [])"
| "is_substring kw (c # cs) = (prefix kw (c # cs) \<or> is_substring kw cs)"

section \<open>Keyword extraction\<close>

definition STOP_WORDS :: "string list" where
  "STOP_WORDS = [
    ''a'', ''about'', ''above'', ''after'', ''again'', ''against'', ''all'', ''am'', ''an'',
    ''and'', ''any'', ''are'', ''aren't'', ''as'', ''at'', ''be'',
    ''because'', ''been'', ''before'', ''being'', ''below'', ''between'', ''both'', ''but'',
    ''by'', ''can't'', ''cannot'', ''could'',
    ''couldn't'', ''did'', ''didn't'', ''do'', ''does'',
    ''doesn't'', ''doing'', ''don't'', ''down'',
    ''during'', ''each'', ''few'', ''for'', ''from'', ''further'', ''had'',
    ''hadn't'', ''has'', ''hasn't'', ''have'',
    ''haven't'', ''having'', ''he'', ''he'd'',
    ''he'll'', ''he's'', ''her'', ''here'',
    ''here's'', ''hers'', ''herself'', ''him'', ''himself'', ''his'',
    ''how'', ''how's'', ''i'', ''i'd'',
    ''i'll'', ''i'm'', ''i've'',
    ''if'', ''in'', ''into'', ''is'', ''isn't'', ''it'',
    ''it's'', ''its'', ''itself'', ''let's'', ''me'',
    ''more'', ''most'', ''mustn't'', ''my'', ''myself'', ''no'', ''nor'',
    ''not'', ''of'', ''off'', ''on'', ''once'', ''only'', ''or'', ''other'', ''ought'',
    ''our'', ''ours'', ''ourselves'', ''out'', ''over'', ''own'', ''same'',
    ''shan't'', ''she'', ''she'd'',
    ''she'll'', ''she's'', ''should'',
    ''shouldn't'', ''so'', ''some'', ''such'', ''than'', ''that'',
    ''that's'', ''the'', ''their'', ''theirs'', ''them'', ''themselves'',
    ''then'', ''there'', ''there's'', ''these'', ''they'',
    ''they'd'', ''they'll'',
    ''they're'', ''they've'', ''this'', ''those'',
    ''through'', ''to'', ''too'', ''under'', ''until'', ''up'', ''very'', ''was'',
    ''wasn't'', ''we'', ''we'd'',
    ''we'll'', ''we're'', ''we've'',
    ''were'', ''weren't'', ''what'', ''what's'',
    ''when'', ''when's'', ''where'', ''where's'',
    ''which'', ''while'', ''who'', ''who's'', ''whom'', ''why'',
    ''why's'', ''with'', ''won't'', ''would'',
    ''wouldn't'', ''you'', ''you'd'',
    ''you'll'', ''you're'',
    ''you've'', ''your'', ''yours'', ''yourself'', ''yourselves'']"

text \<open>
  \<open>collections.Counter\<close> is a dictionary in insertion order: an association list whose
  keys stand in the order of their first occurrence.
\<close>

fun counter_add :: "(string \<times> nat) list \<Rightarrow> string \<Rightarrow> (string \<times> nat) list" where
  "counter_add [] w = [(w, 1)]"
| "counter_add ((k, c) # kcs) w =
     (if k = w then (k, Suc c) # kcs else (k, c) # counter_add kcs w)"

definition Counter :: "string list \<Rightarrow> (string \<times> nat) list" where
  "Counter ws = foldl counter_add [] ws"

text \<open>
  \<open>most_common(n)\<close> is \<open>heapq.nlargest(n, items, key=count)\<close>, documented as
  \<open>sorted(items, key=count, reverse=True)[:n]\<close>: a stable sort by descending count, cut
  after \<open>n\<close> entries. The count \<open>n\<close> is a natural number.
\<close>

definition most_common :: "nat \<Rightarrow> (string \<times> nat) list \<Rightarrow> (string \<times> nat) list" where
  "most_common n items = take n (sort_key (\<lambda>kc. - int (snd kc)) items)"

definition keyword_candidates :: "string \<Rightarrow> string list" where
  "keyword_candidates text =
     filter (\<lambda>word. isalpha word \<and> word \<notin> set STOP_WORDS) (findall_words_3_15 (lower text))"

definition extract_keywords :: "string \<Rightarrow> nat \<Rightarrow> string list" where
  "extract_keywords text num_keywords =
     map fst (most_common num_keywords (Counter (keyword_candidates text)))"

section \<open>Relevance scoring\<close>

text \<open>
  The persona is a dictionary read with \<open>get\<close>: each of the three keys is absent or
  holds a string, and a value counts when it is present and not empty. The embedding
  model is an external capability: \<open>encode\<close> (with its flag \<open>convert_to_tensor\<close>) and
  \<open>pytorch_cos_sim\<close> either return or raise.
\<close>

record persona_info =
  description :: "string option"
  role :: "string option"
  focus_areas :: "string option"

datatype exn = Exception string

record 'v nlp_model =
  encode :: "string \<Rightarrow> bool \<Rightarrow> exn + 'v"
  pytorch_cos_sim :: "'v \<Rightarrow> 'v \<Rightarrow> exn + real"

fun present :: "string option \<Rightarrow> string list" where
  "present None = []"
| "present (Some s) = (if s \<noteq> [] then [s] else [])"

definition all_keywords :: "persona_info \<Rightarrow> string \<Rightarrow> string list" where
  "all_keywords p job_text =
     remdups (findall_words (lower job_text) @
              concat (map (\<lambda>s. findall_words (lower s)) (present (focus_areas p))))"

definition keyword_score :: "string list \<Rightarrow> string list \<Rightarrow> real" where
  "keyword_score kws text_tokens_lower =
     fold (\<lambda>kw score. if kw \<in> set text_tokens_lower then score + 2 else score) kws 0"

definition combined_query :: "persona_info \<Rightarrow> string \<Rightarrow> string" where
  "combined_query p job_text =
     str_join ''. '' ([job_text] @
       map (\<lambda>s. ''Persona description: '' @ s) (present (description p)) @
       map (\<lambda>s. ''Role: '' @ s) (present (role p)) @
       map (\<lambda>s. ''Focus areas: '' @ s) (present (focus_areas p)))"

text \<open>The body of the \<open>try\<close> block (lines 227 to 239): the term it adds, or what it raised.\<close>

definition embedding_term :: "'v nlp_model \<Rightarrow> string \<Rightarrow> persona_info \<Rightarrow> string \<Rightarrow> exn + real" where
  "embedding_term m text p job_text =
     (case encode m (combined_query p job_text) True of
        Inl e \<Rightarrow> Inl e
      | Inr query_embedding \<Rightarrow>
          (case encode m text True of
             Inl e \<Rightarrow> Inl e
           | Inr text_embedding \<Rightarrow>
               (case pytorch_cos_sim m query_embedding text_embedding of
                  Inl e \<Rightarrow> Inl e
                | Inr cosine_score \<Rightarrow> Inr ((cosine_score + 1) / 2 * 10))))"

definition embedding_contribution :: "'v nlp_model option \<Rightarrow> string \<Rightarrow> persona_info \<Rightarrow> string \<Rightarrow> real" where
  "embedding_contribution nlp_model text p job_text =
     (case nlp_model of
        None \<Rightarrow> 0
      | Some m \<Rightarrow> (case embedding_term m text p job_text of Inl e \<Rightarrow> 0 | Inr v \<Rightarrow> v))"

definition short_bonus :: "string list \<Rightarrow> string \<Rightarrow> real" where
  "short_bonus kws text =
     (if length (str_split text) < 10 \<and> list_ex (\<lambda>kw. is_substring kw (lower text)) kws
      then 1 else 0)"

definition calculate_relevance :: "string \<Rightarrow> persona_info \<Rightarrow> string \<Rightarrow> 'v nlp_model option \<Rightarrow> real" where
  "calculate_relevance text p job_text nlp_model =
     (let kws = all_keywords p job_text;
          score = keyword_score kws (findall_words (lower text));
          score = score + embedding_contribution nlp_model text p job_text
      in score + short_bonus kws text)"

section \<open>Ranking and refinement\<close>

definition is_terminal :: "char \<Rightarrow> bool" where
  "is_terminal c = (c \<in> set ''.!?'')"

text \<open>
  \<open>re.split(r'(?<=[.!?])\s+', s)\<close>: a match is a maximal run of white space that stands
  right after a terminal character; the pieces between the matches are returned, the
  last of them possibly empty.
\<close>

function split_sentences :: "string \<Rightarrow> string list" where
  "split_sentences [] = [[]]"
| "split_sentences (c # cs) =
     (if is_terminal c \<and> cs \<noteq> [] \<and> is_space (hd cs)
      then [c] # split_sentences (dropWhile is_space cs)
      else (case split_sentences cs of
              [] \<Rightarrow> [[c]]
            | s # ss \<Rightarrow> (c # s) # ss))"
  by pat_completeness auto
termination
  by (relation "measure length") (auto simp: less_Suc_eq_le length_dropWhile_le)

definition refined_text :: "string \<Rightarrow> string" where
  "refined_text full_text =
     (let sentences = split_sentences full_text
      in str_join '' '' (take (min 3 (length sentences)) sentences))"

record ranked_section =
  rs_document :: string
  rs_page_number :: int
  rs_section_title :: string
  rs_importance_rank :: real
  rs_section_text_raw :: string
  rs_keywords :: "string list"

record output_section =
  out_document :: string
  out_page_number :: int
  out_section_title :: string
  out_importance_rank :: nat
  out_section_text_raw :: string
  out_refined_text :: string
  out_keywords :: "string list"

text \<open>
  The scoring loop (lines 287 to 307). The call of \<open>encode\<close> that collects the embedding
  stands outside any \<open>try\<close>: when it raises, the whole case fails.
\<close>

definition collect_embedding :: "'v nlp_model option \<Rightarrow> string \<Rightarrow> exn + unit" where
  "collect_embedding semantic_model text =
     (case semantic_model of
        None \<Rightarrow> Inr ()
      | Some m \<Rightarrow> (case encode m text False of Inl e \<Rightarrow> Inl e | Inr v \<Rightarrow> Inr ()))"

definition score_section :: "persona_info \<Rightarrow> string \<Rightarrow> 'v nlp_model option \<Rightarrow> section_rec \<Rightarrow> ranked_section" where
  "score_section p job semantic_model s =
     \<lparr>rs_document = document s, rs_page_number = page_number s,
      rs_section_title = section_title s,
      rs_importance_rank = calculate_relevance (section_text s) p job semantic_model,
      rs_section_text_raw = section_text s,
      rs_keywords = extract_keywords (section_text s) 5\<rparr>"

fun score_sections :: "persona_info \<Rightarrow> string \<Rightarrow> 'v nlp_model option \<Rightarrow> section_rec list \<Rightarrow> exn + ranked_section list" where
  "score_sections p job semantic_model [] = Inr []"
| "score_sections p job semantic_model (s # ss) =
     (case collect_embedding semantic_model (section_text s) of
        Inl e \<Rightarrow> Inl e
      | Inr u \<Rightarrow>
          (case score_sections p job semantic_model ss of
             Inl e \<Rightarrow> Inl e
           | Inr rs \<Rightarrow> Inr (score_section p job semantic_model s # rs)))"

text \<open>
  \<open>list.sort(key=..., reverse=True)\<close> is stable: sections with equal scores keep their
  order. It is the stable ascending sort on the negated score.
\<close>

definition rank_sections :: "ranked_section list \<Rightarrow> ranked_section list" where
  "rank_sections ranked_sections = sort_key (\<lambda>x. - rs_importance_rank x) ranked_sections"

definition output_entry :: "nat \<times> ranked_section \<Rightarrow> output_section" where
  "output_entry ix =
     (case ix of (i, s) \<Rightarrow>
       \<lparr>out_document = rs_document s, out_page_number = rs_page_number s,
        out_section_title = rs_section_title s, out_importance_rank = i + 1,
        out_section_text_raw = rs_section_text_raw s,
        out_refined_text = refined_text (rs_section_text_raw s),
        out_keywords = rs_keywords s\<rparr>)"

definition final_extracted_sections_output :: "ranked_section list \<Rightarrow> output_section list" where
  "final_extracted_sections_output ranked_sections = map output_entry (enumerate 0 ranked_sections)"

text \<open>
  The core of \<open>process_single_test_case\<close>, from the loaded persona and job and the
  documents found: \<open>None\<close> when there is no document, the list \<open>extracted_sections\<close>
  otherwise. Reading the inputs and writing the artifacts are not part of the model.
\<close>

definition all_extracted_sections :: "(string \<times> outline_entry list \<times> pdf_doc) list \<Rightarrow> section_rec list" where
  "all_extracted_sections pdf_files =
     concat (map (\<lambda>f. case f of (name, outline, doc) \<Rightarrow>
                       extract_document_sections name outline doc) pdf_files)"

definition process_single_test_case ::
  "persona_info \<Rightarrow> string \<Rightarrow> 'v nlp_model option \<Rightarrow> (string \<times> outline_entry list \<times> pdf_doc) list
     \<Rightarrow> exn + output_section list option" where
  "process_single_test_case p job semantic_model pdf_files =
     (if pdf_files = [] then Inr None
      else
        (case score_sections p job semantic_model (all_extracted_sections pdf_files) of
           Inl e \<Rightarrow> Inl e
         | Inr ranked_sections \<Rightarrow>
             Inr (Some (final_extracted_sections_output (rank_sections ranked_sections)))))"

section \<open>Auxiliary predicates and example inputs\<close>

definition nonempty_texts :: "content_item list \<Rightarrow> bool" where
  "nonempty_texts items = list_all (\<lambda>x. is_text x \<longrightarrow> text_of x \<noteq> []) items"

definition parts_inv :: "sect_state \<Rightarrow> bool" where
  "parts_inv st = (list_all (\<lambda>s. section_text s \<noteq> []) (doc_sections st) \<and>
                   list_all (\<lambda>p. p \<noteq> []) (current_section_text_parts st))"

text \<open>
  One page with three text blocks: the second lies 30 units below the first (line height
  10, so the threshold is 25), the third holds white space only.
\<close>

definition example_doc :: pdf_doc where
  "example_doc =
     [[\<lparr>block_type = 0, block_bbox = (0, 0, 100, 10),
        block_lines = [\<lparr>line_bbox = (0, 0, 100, 10), line_spans = ['' Intro '', ''text'']\<rparr>]\<rparr>,
       \<lparr>block_type = 0, block_bbox = (0, 40, 100, 50),
        block_lines = [\<lparr>line_bbox = (0, 40, 100, 50), line_spans = [''Body'']\<rparr>]\<rparr>,
       \<lparr>block_type = 0, block_bbox = (0, 52, 100, 62),
        block_lines = [\<lparr>line_bbox = (0, 52, 100, 62), line_spans = [''  '']\<rparr>]\<rparr>]]"

text \<open>The invariant of the scan for the start pages.\<close>

definition pages_ok :: "content_item list \<Rightarrow> bool" where
  "pages_ok items = (sorted (map item_page items) \<and> list_all (\<lambda>x. is_text x \<longrightarrow> 1 \<le> item_page x) items)"

definition page_inv :: "sect_state \<Rightarrow> content_item list \<Rightarrow> bool" where
  "page_inv st rest =
     (sorted (map page_number (doc_sections st)) \<and>
      list_all (\<lambda>s. page_number s \<le> current_section_start_page st) (doc_sections st) \<and>
      ((doc_sections st = [] \<and> current_section_text_parts st = [] \<and> current_section_start_page st = 1) \<or>
       list_all (\<lambda>x. current_section_start_page st \<le> item_page x) rest))"

text \<open>The texts of the text items of a stream, and what it means to partition them.\<close>

definition item_texts :: "content_item list \<Rightarrow> string list" where
  "item_texts items = map text_of (filter is_text items)"

definition partition_of :: "section_rec list \<Rightarrow> string list list \<Rightarrow> bool" where
  "partition_of secs pss =
     (list_all (\<lambda>ps. ps \<noteq> []) pss \<and> map section_text secs = map (str_join [CHR 0x0A]) pss)"

text \<open>A run of items none of which is separated from its predecessor by a gap.\<close>

fun no_gap :: "real \<Rightarrow> content_item option \<Rightarrow> content_item list \<Rightarrow> bool" where
  "no_gap thr prev [] = True"
| "no_gap thr prev (x # xs) = (\<not> gap_break thr prev x \<and> no_gap thr (Some x) xs)"

definition preamble_titles :: "nat \<Rightarrow> string list" where
  "preamble_titles k = (case k of 0 \<Rightarrow> [] | Suc j \<Rightarrow> ''Document Start'' # replicate j ''Content'')"

definition preamble_inv :: "content_item option \<Rightarrow> sect_state \<Rightarrow> bool" where
  "preamble_inv prev st =
     (current_section_level st = ''H0'' \<and>
      list_all (\<lambda>s. level s = ''H0'') (doc_sections st) \<and>
      (prev = None \<or> current_section_text_parts st \<noteq> []) \<and>
      map section_title (doc_sections st) = preamble_titles (length (doc_sections st)) \<and>
      current_section_title st = (if doc_sections st = [] then ''Document Start'' else ''Content''))"

text \<open>
  The page of \<open>example_doc\<close> followed by a second page with one block and the same line
  height, and an outline with one heading on page 2.
\<close>

definition two_page_doc :: pdf_doc where
  "two_page_doc = example_doc @
     [[\<lparr>block_type = 0, block_bbox = (0, 5, 100, 15),
        block_lines = [\<lparr>line_bbox = (0, 5, 100, 15), line_spans = [''More'']\<rparr>]\<rparr>]]"

definition example_outline :: "outline_entry list" where
  "example_outline = [\<lparr>h_text = ''Title'', h_level = ''H1'', h_page = 2\<rparr>]"

text \<open>
  The page of \<open>example_doc\<close> (line height 10, a gap of 30 between its two texts) followed
  by a page whose only line is 20 units high.
\<close>

definition uneven_doc :: pdf_doc where
  "uneven_doc = example_doc @
     [[\<lparr>block_type = 0, block_bbox = (0, 5, 100, 25),
        block_lines = [\<lparr>line_bbox = (0, 5, 100, 25), line_spans = [''More'']\<rparr>]\<rparr>]]"

text \<open>The keywords of the query that occur among the tokens of a text.\<close>

definition matching_keywords :: "persona_info \<Rightarrow> string \<Rightarrow> string \<Rightarrow> string set" where
  "matching_keywords p job_text text =
     set (all_keywords p job_text) \<inter> set (findall_words (lower text))"

text \<open>An embedding model whose \<open>encode\<close> always raises, and a persona without focus areas.\<close>

definition failing_model :: "unit nlp_model" where
  "failing_model = \<lparr>encode = (\<lambda>s t. Inl (Exception ''model unavailable'')),
                     pytorch_cos_sim = (\<lambda>a b. Inr 1)\<rparr>"

definition plain_persona :: persona_info where
  "plain_persona = \<lparr>description = Some ''A cook'', role = None, focus_areas = None\<rparr>"

text \<open>What an output entry keeps of a scored section, and a document of one text block.\<close>

definition out_fields :: "output_section \<Rightarrow> string \<times> int \<times> string \<times> string \<times> string list" where
  "out_fields s = (out_document s, out_page_number s, out_section_title s,
                   out_section_text_raw s, out_keywords s)"

definition rs_fields :: "ranked_section \<Rightarrow> string \<times> int \<times> string \<times> string \<times> string list" where
  "rs_fields s = (rs_document s, rs_page_number s, rs_section_title s,
                  rs_section_text_raw s, rs_keywords s)"

definition one_block_doc :: "string \<Rightarrow> pdf_doc" where
  "one_block_doc t =
     [[\<lparr>block_type = 0, block_bbox = (0, 0, 100, 10),
        block_lines = [\<lparr>line_bbox = (0, 0, 100, 10), line_spans = [t]\<rparr>]\<rparr>]]"

definition example_files :: "(string \<times> outline_entry list \<times> pdf_doc) list" where
  "example_files =
     [(''a.pdf'', [], one_block_doc ''no match''), (''b.pdf'', [], one_block_doc ''cat here''),
      (''c.pdf'', [], one_block_doc ''cat food''), (''d.pdf'', [], one_block_doc ''food there'')]"

text \<open>
  Well-formed lists of sentences: no sentence holds a split point, every sentence but the
  last ends with a terminal character, and no sentence after the first starts with white
  space.
\<close>

fun wf_sentences :: "string list \<Rightarrow> bool" where
  "wf_sentences [] = False"
| "wf_sentences [s] = (split_sentences s = [s])"
| "wf_sentences (s # r # rs) =
     (split_sentences s = [s] \<and> s \<noteq> [] \<and> is_terminal (last s) \<and>
      (r = [] \<or> \<not> is_space (hd r)) \<and> wf_sentences (r # rs))"

definition sentence_file :: "(string \<times> outline_entry list \<times> pdf_doc) list" where
  "sentence_file = [(''e.pdf'', [], one_block_doc ''Hello world.  This is it! Really? Yes. No.'')]"

text \<open>
  The position of the first occurrence of a word, the words in the order of their first
  occurrence, and the order of the keywords: by descending frequency, then by first
  occurrence.
\<close>

definition first_index :: "string list \<Rightarrow> string \<Rightarrow> nat" where
  "first_index ws w = length (takeWhile (\<lambda>x. x \<noteq> w) ws)"

definition first_occurrences :: "string list \<Rightarrow> string list" where
  "first_occurrences ws = rev (remdups (rev ws))"

definition keyword_order :: "string list \<Rightarrow> string \<Rightarrow> string \<Rightarrow> bool" where
  "keyword_order ws a b =
     (count_list ws b < count_list ws a \<or>
      (count_list ws a = count_list ws b \<and> first_index ws a < first_index ws b))"

section \<open>The sectionizer never emits an empty section\<close>

lemma str_join_nonempty: "xs \<noteq> [] \<Longrightarrow> hd xs \<noteq> [] \<Longrightarrow> str_join sep xs \<noteq> []"
  by (induction sep xs rule: str_join.induct) auto

lemma flush_parts_inv: "parts_inv st \<Longrightarrow> parts_inv (flush name st)"
  by (cases "current_section_text_parts st")
     (auto simp: parts_inv_def flush_def current_section_def str_join_nonempty)

lemma adopt_parts_inv:
  "parts_inv st \<Longrightarrow> (is_text item \<longrightarrow> text_of item \<noteq> []) \<Longrightarrow> parts_inv (adopt brk item st)"
  by (cases item) (auto simp: parts_inv_def Let_def)

lemma section_step_parts_inv:
  "parts_inv st \<Longrightarrow> (is_text item \<longrightarrow> text_of item \<noteq> []) \<Longrightarrow>
     parts_inv (section_step name thr prev st item)"
  by (simp add: section_step_def Let_def flush_parts_inv adopt_parts_inv)

lemma section_loop_parts_inv:
  "parts_inv st \<Longrightarrow> nonempty_texts items \<Longrightarrow> parts_inv (section_loop name thr prev st items)"
  by (induction items arbitrary: prev st) (auto simp: nonempty_texts_def section_step_parts_inv)

lemma sectionize_nonempty:
  assumes "nonempty_texts items"
  shows "list_all (\<lambda>s. section_text s \<noteq> []) (sectionize name thr items)"
proof -
  have "parts_inv init_state"
    by (simp add: parts_inv_def init_state_def)
  then have "parts_inv (flush name (section_loop name thr None init_state items))"
    using assms by (simp add: flush_parts_inv section_loop_parts_inv)
  then show ?thesis
    by (simp add: sectionize_def parts_inv_def)
qed

lemma page_items_nonempty: "nonempty_texts (page_items n pg)"
  by (simp add: nonempty_texts_def page_items_def list_all_iff)

lemma page_loop_nonempty:
  "nonempty_texts items \<Longrightarrow> nonempty_texts (snd (page_loop n avg items doc))"
proof (induction doc arbitrary: n avg items)
  case Nil
  then show ?case by simp
next
  case (Cons pg pgs)
  have "nonempty_texts (items @ page_items n pg)"
    using Cons.prems page_items_nonempty[of n pg] by (simp add: nonempty_texts_def)
  then show ?case
    using Cons.IH by simp
qed

lemma heading_items_nonempty: "nonempty_texts (map heading_item outline)"
  by (simp add: nonempty_texts_def heading_item_def list_all_iff)

lemma all_content_items_nonempty: "nonempty_texts (all_content_items outline doc)"
proof -
  have "nonempty_texts (snd (page_loop 0 12 [] doc) @ map heading_item outline)"
    using page_loop_nonempty[of "[]" 0 12 doc] heading_items_nonempty[of outline]
    by (simp add: nonempty_texts_def)
  then show ?thesis
    by (simp add: all_content_items_def sort_items_def nonempty_texts_def list_all_iff)
qed

text \<open>
  Claim C2. Every section that \<open>extract_document_sections\<close> returns, for any file name,
  outline and document, has a text that is not empty: a flush needs accumulated parts,
  and every part is a stripped block text that passed the test \<open>if block_text.strip()\<close>.
\<close>

theorem sections_never_empty:
  "\<forall>s \<in> set (extract_document_sections name outline doc). section_text s \<noteq> []"
  using sectionize_nonempty[OF all_content_items_nonempty, of name "gap_threshold doc" outline doc]
  by (simp add: extract_document_sections_def list_all_iff)

lemma example_doc_sections:
  "extract_document_sections ''a.pdf'' [] example_doc =
     [\<lparr>document = ''a.pdf'', page_number = 1, section_title = ''Document Start'',
       section_text = ''Intro text'', level = ''H0''\<rparr>,
      \<lparr>document = ''a.pdf'', page_number = 1, section_title = ''Content'',
       section_text = ''Body'', level = ''H0''\<rparr>]"
  by code_simp

theorem sections_never_empty_witness:
  "length (extract_document_sections ''a.pdf'' [] example_doc) = 2 \<and>
   list_all (\<lambda>s. section_text s \<noteq> []) (extract_document_sections ''a.pdf'' [] example_doc)"
  using sections_never_empty[of "''a.pdf''" "[]" example_doc]
  by (simp add: example_doc_sections)

section \<open>Start pages never decrease\<close>

lemma sorted_snoc_iff: "sorted (xs @ [y::int]) = (sorted xs \<and> (\<forall>x\<in>set xs. x \<le> y))"
  by (auto simp: sorted_append)

lemma section_step_page_inv:
  assumes "page_inv st (item # rest)" "pages_ok (item # rest)"
  shows "page_inv (section_step name thr prev st item) rest"
proof (cases item)
  case (HeadingMarker t l p)
  then show ?thesis
    using assms
    by (auto simp: page_inv_def pages_ok_def section_step_def flush_def current_section_def
        sorted_append list_all_iff)
next
  case (TextItem t p b)
  show ?thesis
  proof (cases "gap_break thr prev item")
    case True
    then show ?thesis
      using assms TextItem
      by (auto simp: page_inv_def pages_ok_def section_step_def flush_def current_section_def
          sorted_append list_all_iff Let_def)
  next
    case False
    then show ?thesis
      using assms TextItem
      by (auto simp: page_inv_def pages_ok_def section_step_def flush_def current_section_def
          sorted_append list_all_iff Let_def)
  qed
qed

lemma pages_ok_tail: "pages_ok (item # rest) \<Longrightarrow> pages_ok rest"
  by (simp add: pages_ok_def)

lemma section_loop_page_inv:
  "page_inv st items \<Longrightarrow> pages_ok items \<Longrightarrow> page_inv (section_loop name thr prev st items) []"
proof (induction items arbitrary: st prev)
  case Nil
  then show ?case by (simp add: page_inv_def)
next
  case (Cons item rest)
  then show ?case
    using section_step_page_inv[OF Cons.prems] pages_ok_tail[OF Cons.prems(2)] by simp
qed

lemma flush_sorted:
  "page_inv st [] \<Longrightarrow> sorted (map page_number (doc_sections (flush name st)))"
  by (auto simp: page_inv_def flush_def current_section_def sorted_append list_all_iff)

lemma sectionize_sorted:
  assumes "pages_ok items"
  shows "sorted (map page_number (sectionize name thr items))"
proof -
  have "page_inv init_state items"
    by (simp add: page_inv_def init_state_def)
  then show ?thesis
    using assms by (simp add: sectionize_def flush_sorted section_loop_page_inv)
qed

lemma page_loop_text_pages:
  "list_all (\<lambda>x. is_text x \<longrightarrow> 1 \<le> item_page x) items \<Longrightarrow>
   list_all (\<lambda>x. is_text x \<longrightarrow> 1 \<le> item_page x) (snd (page_loop n avg items doc))"
proof (induction doc arbitrary: n avg items)
  case Nil
  then show ?case by simp
next
  case (Cons pg pgs)
  have "list_all (\<lambda>x. is_text x \<longrightarrow> 1 \<le> item_page x) (items @ page_items n pg)"
    using Cons.prems by (auto simp: page_items_def list_all_iff)
  then show ?case
    using Cons.IH by simp
qed

lemma sort_items_pages_sorted: "sorted (map item_page (sort_items items))"
proof -
  have "sorted (map (\<lambda>x. (item_page x, bbox_top (item_bbox x))) (sort_items items))"
    unfolding sort_items_def by (rule sorted_sort_key)
  then have "sorted_wrt (\<lambda>x y. (item_page x, bbox_top (item_bbox x)) \<le> (item_page y, bbox_top (item_bbox y))) (sort_items items)"
    by (simp add: sorted_map)
  then have "sorted_wrt (\<lambda>x y. item_page x \<le> item_page y) (sort_items items)"
    by (rule sorted_wrt_mono_rel[rotated]) (auto simp: less_eq_prod_def)
  then show ?thesis by (simp add: sorted_map)
qed

lemma all_content_items_pages_ok: "pages_ok (all_content_items outline doc)"
proof -
  have "list_all (\<lambda>x. is_text x \<longrightarrow> 1 \<le> item_page x) (snd (page_loop 0 12 [] doc))"
    by (rule page_loop_text_pages) simp
  then have "list_all (\<lambda>x. is_text x \<longrightarrow> 1 \<le> item_page x)
               (sort_items (snd (page_loop 0 12 [] doc) @ map heading_item outline))"
    by (auto simp: list_all_iff sort_items_def heading_item_def)
  then show ?thesis
    by (simp add: pages_ok_def all_content_items_def sort_items_pages_sorted)
qed

text \<open>
  Claim C4. For any file name, outline and document, the page numbers of the sections that
  \<open>extract_document_sections\<close> returns, in the order of the list, never decrease. The
  items are visited in the order of their pages, every text block lies on a page of number
  1 or more, and a heading of a page below 1 is visited before any text.
\<close>

theorem start_pages_nondecreasing:
  "sorted (map page_number (extract_document_sections name outline doc))"
  by (simp add: extract_document_sections_def sectionize_sorted all_content_items_pages_ok)

section \<open>The sectionizer partitions the text stream\<close>

lemma flush_partition:
  "\<exists>pss. list_all (\<lambda>ps. ps \<noteq> []) pss \<and>
     map section_text (doc_sections (flush name st)) =
       map section_text (doc_sections st) @ map (str_join [CHR 0x0A]) pss \<and>
     current_section_text_parts st = concat pss @ current_section_text_parts (flush name st)"
proof (cases "current_section_text_parts st = []")
  case True
  then show ?thesis
    by (intro exI[of _ "[]"]) (simp add: flush_def)
next
  case False
  then show ?thesis
    by (intro exI[of _ "[current_section_text_parts st]"]) (simp add: flush_def current_section_def)
qed

lemma adopt_sections: "doc_sections (adopt brk item st) = doc_sections st"
  by (cases item) (simp_all add: Let_def)

lemma adopt_parts:
  "current_section_text_parts (adopt brk item st) = current_section_text_parts st @ item_texts [item]"
  by (cases item) (simp_all add: Let_def item_texts_def)

lemma section_step_partition:
  "\<exists>pss. list_all (\<lambda>ps. ps \<noteq> []) pss \<and>
     map section_text (doc_sections (section_step name thr prev st item)) =
       map section_text (doc_sections st) @ map (str_join [CHR 0x0A]) pss \<and>
     current_section_text_parts st @ item_texts [item] =
       concat pss @ current_section_text_parts (section_step name thr prev st item)"
proof (cases "is_section_break thr prev item")
  case True
  obtain pss where "list_all (\<lambda>ps. ps \<noteq> []) pss"
    "map section_text (doc_sections (flush name st)) =
       map section_text (doc_sections st) @ map (str_join [CHR 0x0A]) pss"
    "current_section_text_parts st = concat pss @ current_section_text_parts (flush name st)"
    using flush_partition by blast
  then show ?thesis
    using True by (intro exI[of _ pss]) (simp add: section_step_def adopt_sections adopt_parts)
next
  case False
  then show ?thesis
    by (intro exI[of _ "[]"]) (simp add: section_step_def adopt_sections adopt_parts)
qed

lemma item_texts_Cons: "item_texts (item # items) = item_texts [item] @ item_texts items"
  by (simp add: item_texts_def)

lemma section_loop_partition:
  "\<exists>pss. list_all (\<lambda>ps. ps \<noteq> []) pss \<and>
     map section_text (doc_sections (section_loop name thr prev st items)) =
       map section_text (doc_sections st) @ map (str_join [CHR 0x0A]) pss \<and>
     current_section_text_parts st @ item_texts items =
       concat pss @ current_section_text_parts (section_loop name thr prev st items)"
proof (induction items arbitrary: prev st)
  case Nil
  show ?case
    by (intro exI[of _ "[]"]) (simp add: item_texts_def)
next
  case (Cons item items)
  let ?st1 = "section_step name thr prev st item"
  let ?st2 = "section_loop name thr (Some item) ?st1 items"
  obtain p1 where p1: "list_all (\<lambda>ps. ps \<noteq> []) p1"
    "map section_text (doc_sections ?st1) = map section_text (doc_sections st) @ map (str_join [CHR 0x0A]) p1"
    "current_section_text_parts st @ item_texts [item] = concat p1 @ current_section_text_parts ?st1"
    using section_step_partition by blast
  obtain p2 where p2: "list_all (\<lambda>ps. ps \<noteq> []) p2"
    "map section_text (doc_sections ?st2) = map section_text (doc_sections ?st1) @ map (str_join [CHR 0x0A]) p2"
    "current_section_text_parts ?st1 @ item_texts items = concat p2 @ current_section_text_parts ?st2"
    using Cons.IH by blast
  have "current_section_text_parts st @ item_texts (item # items) =
          (current_section_text_parts st @ item_texts [item]) @ item_texts items"
    by (subst item_texts_Cons) simp
  also have "\<dots> = concat p1 @ (current_section_text_parts ?st1 @ item_texts items)"
    by (simp add: p1(3))
  also have "\<dots> = concat (p1 @ p2) @ current_section_text_parts ?st2"
    by (simp add: p2(3))
  finally have parts: "current_section_text_parts st @ item_texts (item # items) =
      concat (p1 @ p2) @ current_section_text_parts ?st2" .
  show ?case
    using p1(1,2) p2(1,2) parts by (intro exI[of _ "p1 @ p2"]) simp
qed

lemma sectionize_partition:
  "\<exists>pss. partition_of (sectionize name thr items) pss \<and> concat pss = item_texts items"
proof -
  let ?st = "section_loop name thr None init_state items"
  obtain p1 where p1: "list_all (\<lambda>ps. ps \<noteq> []) p1"
    "map section_text (doc_sections ?st) = map section_text (doc_sections init_state) @ map (str_join [CHR 0x0A]) p1"
    "current_section_text_parts init_state @ item_texts items = concat p1 @ current_section_text_parts ?st"
    using section_loop_partition by blast
  obtain p2 where p2: "list_all (\<lambda>ps. ps \<noteq> []) p2"
    "map section_text (doc_sections (flush name ?st)) = map section_text (doc_sections ?st) @ map (str_join [CHR 0x0A]) p2"
    "current_section_text_parts ?st = concat p2 @ current_section_text_parts (flush name ?st)"
    using flush_partition by blast
  have "current_section_text_parts (flush name ?st) = []"
    by (simp add: flush_def)
  then have "concat (p1 @ p2) = item_texts items"
    using p1(3) p2(3) by (simp add: init_state_def)
  moreover have "partition_of (sectionize name thr items) (p1 @ p2)"
    using p1(1,2) p2(1,2) by (simp add: partition_of_def sectionize_def init_state_def)
  ultimately show ?thesis by blast
qed

lemma page_loop_texts:
  "mset (item_texts (snd (page_loop n avg items doc))) =
     mset (item_texts items) +
     mset (filter (\<lambda>t. t \<noteq> []) (map (\<lambda>b. strip (block_text b)) (concat (map text_blocks doc))))"
proof (induction doc arbitrary: n avg items)
  case Nil
  then show ?case by simp
next
  case (Cons pg pgs)
  have "item_texts (items @ page_items n pg) =
          item_texts items @ filter (\<lambda>t. t \<noteq> []) (map (\<lambda>b. strip (block_text b)) (text_blocks pg))"
    by (simp add: item_texts_def page_items_def filter_map comp_def)
  then show ?case
    using Cons.IH by simp
qed

lemma all_content_items_texts:
  "mset (item_texts (all_content_items outline doc)) =
     mset (filter (\<lambda>t. t \<noteq> []) (map (\<lambda>b. strip (block_text b)) (concat (map text_blocks doc))))"
proof -
  have "item_texts (map heading_item outline) = []"
    by (simp add: item_texts_def heading_item_def)
  then have "mset (item_texts (snd (page_loop 0 12 [] doc) @ map heading_item outline)) =
     mset (filter (\<lambda>t. t \<noteq> []) (map (\<lambda>b. strip (block_text b)) (concat (map text_blocks doc))))"
    using page_loop_texts[of 0 12 "[]" doc] by (simp add: item_texts_def)
  then show ?thesis
    by (simp add: all_content_items_def sort_items_def item_texts_def mset_filter)
qed

text \<open>
  Claim C10. For any file name, outline and document there is a list \<open>pss\<close> of
  non-empty lists of text parts such that the sections returned are, in order, the
  newline-joins of the lists of \<open>pss\<close>, and the concatenation of \<open>pss\<close> is exactly the
  sequence of the texts of the text items of the sorted item stream: no text is dropped,
  duplicated or reordered. These texts are, as a multiset, the stripped texts of the text
  blocks of the document that are not empty.
\<close>

theorem sections_partition_text_stream:
  "\<exists>pss. partition_of (extract_document_sections name outline doc) pss \<and>
          concat pss = item_texts (all_content_items outline doc) \<and>
          mset (concat pss) =
            mset (filter (\<lambda>t. t \<noteq> []) (map (\<lambda>b. strip (block_text b)) (concat (map text_blocks doc))))"
  using sectionize_partition[of name "gap_threshold doc" "all_content_items outline doc"]
    all_content_items_texts[of outline doc]
  by (auto simp: extract_document_sections_def)

section \<open>Titles and levels of the sections\<close>

lemma section_loop_append:
  "section_loop name thr prev st (xs @ ys) =
     section_loop name thr (if xs = [] then prev else Some (last xs))
       (section_loop name thr prev st xs) ys"
  by (induction xs arbitrary: prev st) auto

lemma flush_sections_prefix: "\<exists>suf. doc_sections (flush name st) = doc_sections st @ suf"
  by (simp add: flush_def)

lemma section_step_sections_prefix:
  "\<exists>suf. doc_sections (section_step name thr prev st item) = doc_sections st @ suf"
  using flush_sections_prefix[of name st]
  by (cases item) (auto simp: section_step_def Let_def)

lemma section_loop_sections_prefix:
  "\<exists>suf. doc_sections (section_loop name thr prev st items) = doc_sections st @ suf"
proof (induction items arbitrary: prev st)
  case Nil
  then show ?case by simp
next
  case (Cons item items)
  obtain s1 where "doc_sections (section_step name thr prev st item) = doc_sections st @ s1"
    using section_step_sections_prefix by blast
  moreover obtain s2 where
    "doc_sections (section_loop name thr (Some item) (section_step name thr prev st item) items) =
       doc_sections (section_step name thr prev st item) @ s2"
    using Cons.IH by blast
  ultimately show ?case by simp
qed

lemma text_run_loop:
  "list_all is_text ts \<Longrightarrow> no_gap thr prev ts \<Longrightarrow>
   section_loop name thr prev st ts =
     st\<lparr>current_section_text_parts := current_section_text_parts st @ map text_of ts\<rparr>"
proof (induction ts arbitrary: prev st)
  case Nil
  then show ?case by simp
next
  case (Cons x xs)
  then obtain t p b where x: "x = TextItem t p b"
    by (cases x) auto
  have "section_step name thr prev st x =
          st\<lparr>current_section_text_parts := current_section_text_parts st @ [t]\<rparr>"
    using Cons.prems(2) x by (simp add: section_step_def)
  then show ?case
    using Cons x by simp
qed

lemma heading_step:
  "section_step name thr prev st (HeadingMarker t l p) =
     (flush name st)\<lparr>current_section_title := t, current_section_level := l,
        current_section_start_page := p\<rparr>"
  by (simp add: section_step_def)

lemma flush_parts_empty: "current_section_text_parts (flush name st) = []"
  by (simp add: flush_def)

lemma break_step_sections:
  assumes "is_section_break thr prev item"
  shows "doc_sections (section_step name thr prev st item) = doc_sections (flush name st)"
  using assms by (cases item) (simp_all add: section_step_def Let_def)

lemma sections_after_break:
  assumes "post = [] \<or> is_section_break thr prev (hd post)"
  shows "\<exists>after. doc_sections (flush name (section_loop name thr prev st post)) =
           doc_sections (flush name st) @ after"
proof (cases post)
  case Nil
  then show ?thesis by simp
next
  case (Cons x xs)
  then have brk: "is_section_break thr prev x"
    using assms by simp
  obtain s1 where "doc_sections (section_loop name thr (Some x) (section_step name thr prev st x) xs) =
      doc_sections (section_step name thr prev st x) @ s1"
    using section_loop_sections_prefix by blast
  moreover obtain s2 where "doc_sections (flush name (section_loop name thr (Some x) (section_step name thr prev st x) xs)) =
      doc_sections (section_loop name thr (Some x) (section_step name thr prev st x) xs) @ s2"
    using flush_sections_prefix by blast
  ultimately show ?thesis
    using Cons break_step_sections[OF brk] by simp
qed

lemma heading_governed:
  assumes "ts \<noteq> []" "list_all is_text ts" "no_gap thr (Some (HeadingMarker t l p)) ts"
    and "post = [] \<or> is_section_break thr (Some (last ts)) (hd post)"
  shows "\<exists>after. sectionize name thr (pre @ HeadingMarker t l p # ts @ post) =
           sectionize name thr pre @
           \<lparr>document = name, page_number = p, section_title = t,
            section_text = str_join [CHR 0x0A] (map text_of ts), level = l\<rparr> # after"
proof -
  let ?h = "HeadingMarker t l p"
  let ?st0 = "section_loop name thr None init_state pre"
  let ?prev0 = "if pre = [] then None else Some (last pre)"
  let ?st1 = "section_step name thr ?prev0 ?st0 ?h"
  let ?st2 = "?st1\<lparr>current_section_text_parts := current_section_text_parts ?st1 @ map text_of ts\<rparr>"
  have loop: "section_loop name thr None init_state (pre @ ?h # ts @ post) =
      section_loop name thr (Some (last ts)) ?st2 post"
    using assms(1) text_run_loop[OF assms(2,3), of name ?st1]
    by (simp add: section_loop_append[of name thr None init_state pre]
        section_loop_append[of name thr "Some ?h" _ ts])
  have st1: "doc_sections ?st1 = sectionize name thr pre" "current_section_text_parts ?st1 = []"
    "current_section_title ?st1 = t" "current_section_level ?st1 = l"
    "current_section_start_page ?st1 = p"
    by (simp_all add: heading_step sectionize_def flush_parts_empty)
  have "doc_sections (flush name ?st2) =
      sectionize name thr pre @
      [\<lparr>document = name, page_number = p, section_title = t,
        section_text = str_join [CHR 0x0A] (map text_of ts), level = l\<rparr>]"
    using assms(1) st1 by (simp add: flush_def current_section_def)
  then show ?thesis
    using sections_after_break[OF assms(4), of name ?st2] loop
    by (auto simp: sectionize_def)
qed

lemma preamble_titles_Suc:
  "preamble_titles (Suc k) = preamble_titles k @ [if k = 0 then ''Document Start'' else ''Content'']"
proof (cases k)
  case 0
  then show ?thesis by (simp add: preamble_titles_def)
next
  case (Suc j)
  have "replicate (Suc j) ''Content'' = replicate j ''Content'' @ [''Content'']"
    by (simp only: replicate_append_same replicate_Suc)
  then show ?thesis
    using Suc by (simp add: preamble_titles_def)
qed

lemma flush_preamble_sections:
  assumes "preamble_inv prev st"
  shows "list_all (\<lambda>s. level s = ''H0'') (doc_sections (flush name st)) \<and>
         map section_title (doc_sections (flush name st)) =
           preamble_titles (length (doc_sections (flush name st)))"
  using assms
  by (auto simp: preamble_inv_def flush_def current_section_def preamble_titles_Suc)

lemma section_step_preamble_inv:
  assumes "preamble_inv prev st" "is_text item"
  shows "preamble_inv (Some item) (section_step name thr prev st item)"
proof -
  obtain t p b where item: "item = TextItem t p b"
    using assms(2) by (cases item) auto
  show ?thesis
  proof (cases "gap_break thr prev item")
    case True
    then have "prev \<noteq> None"
      by (cases prev) auto
    then have "current_section_text_parts st \<noteq> []"
      using assms(1) by (auto simp: preamble_inv_def)
    then show ?thesis
      using assms(1) True item
      by (auto simp: preamble_inv_def section_step_def flush_def current_section_def
          preamble_titles_Suc Let_def)
  next
    case False
    then show ?thesis
      using assms(1) item by (auto simp: preamble_inv_def section_step_def Let_def)
  qed
qed

lemma section_loop_preamble_inv:
  "preamble_inv prev st \<Longrightarrow> list_all is_text items \<Longrightarrow>
   \<exists>prev'. preamble_inv prev' (section_loop name thr prev st items)"
proof (induction items arbitrary: prev st)
  case Nil
  then show ?case by auto
next
  case (Cons x xs)
  then show ?case
    using section_step_preamble_inv[of prev st x name thr] by simp
qed

lemma preamble_sections:
  assumes "list_all is_text pre"
  shows "list_all (\<lambda>s. level s = ''H0'') (sectionize name thr pre) \<and>
         map section_title (sectionize name thr pre) =
           preamble_titles (length (sectionize name thr pre))"
proof -
  have "preamble_inv None init_state"
    by (simp add: preamble_inv_def init_state_def preamble_titles_def)
  then obtain prev' where "preamble_inv prev' (section_loop name thr None init_state pre)"
    using section_loop_preamble_inv[OF _ assms] by blast
  then show ?thesis
    using flush_preamble_sections by (simp add: sectionize_def)
qed

lemma preamble_prefix:
  assumes "rest = [] \<or> \<not> is_text (hd rest)"
  shows "\<exists>after. sectionize name thr (pre @ rest) = sectionize name thr pre @ after"
proof -
  have "rest = [] \<or> is_section_break thr (if pre = [] then None else Some (last pre)) (hd rest)"
  proof (cases rest)
    case Nil
    then show ?thesis by simp
  next
    case (Cons x xs)
    then show ?thesis
      using assms by (cases x) auto
  qed
  then show ?thesis
    using sections_after_break[of rest thr _ name "section_loop name thr None init_state pre"]
    by (simp add: sectionize_def section_loop_append)
qed

text \<open>
  Claim C5, amended. In the sorted item stream of a document, let a heading be followed
  by a non-empty run of text blocks without a gap boundary inside, the run ending at the
  end of the stream or at the next boundary. Then the section emitted right after the
  sections of the items before the heading has the heading's text as title, the heading's
  level and page, and the run's texts as text. And when the stream starts with text blocks
  only, up to its end or its first heading, the sections of these blocks all have the
  sentinel level H0; the first of them is titled "Document Start" and every later one,
  opened by a gap boundary, is titled "Content".
\<close>

theorem heading_titles_and_preamble:
  "(all_content_items outline doc = pre @ HeadingMarker t l p # ts @ post \<and> ts \<noteq> [] \<and>
    list_all is_text ts \<and> no_gap (gap_threshold doc) (Some (HeadingMarker t l p)) ts \<and>
    (post = [] \<or> is_section_break (gap_threshold doc) (Some (last ts)) (hd post))
    \<longrightarrow> (\<exists>after. extract_document_sections name outline doc =
           sectionize name (gap_threshold doc) pre @
           \<lparr>document = name, page_number = p, section_title = t,
            section_text = str_join [CHR 0x0A] (map text_of ts), level = l\<rparr> # after)) \<and>
   (all_content_items outline doc = pre' @ rest \<and> list_all is_text pre' \<and>
    (rest = [] \<or> \<not> is_text (hd rest))
    \<longrightarrow> (\<exists>after. extract_document_sections name outline doc =
           sectionize name (gap_threshold doc) pre' @ after) \<and>
        list_all (\<lambda>s. level s = ''H0'') (sectionize name (gap_threshold doc) pre') \<and>
        map section_title (sectionize name (gap_threshold doc) pre') =
          preamble_titles (length (sectionize name (gap_threshold doc) pre')))"
proof (intro conjI impI)
  assume a: "all_content_items outline doc = pre @ HeadingMarker t l p # ts @ post \<and> ts \<noteq> [] \<and>
    list_all is_text ts \<and> no_gap (gap_threshold doc) (Some (HeadingMarker t l p)) ts \<and>
    (post = [] \<or> is_section_break (gap_threshold doc) (Some (last ts)) (hd post))"
  then show "\<exists>after. extract_document_sections name outline doc =
           sectionize name (gap_threshold doc) pre @
           \<lparr>document = name, page_number = p, section_title = t,
            section_text = str_join [CHR 0x0A] (map text_of ts), level = l\<rparr> # after"
    using heading_governed[of ts "gap_threshold doc" t l p post name pre]
    by (simp add: extract_document_sections_def)
next
  assume b: "all_content_items outline doc = pre' @ rest \<and> list_all is_text pre' \<and>
    (rest = [] \<or> \<not> is_text (hd rest))"
  then show "\<exists>after. extract_document_sections name outline doc =
           sectionize name (gap_threshold doc) pre' @ after"
    using preamble_prefix[of rest name "gap_threshold doc" pre']
    by (simp add: extract_document_sections_def)
  show "list_all (\<lambda>s. level s = ''H0'') (sectionize name (gap_threshold doc) pre')"
    using b preamble_sections by blast
  show "map section_title (sectionize name (gap_threshold doc) pre') =
          preamble_titles (length (sectionize name (gap_threshold doc) pre'))"
    using b preamble_sections by blast
qed

lemma two_page_items:
  "all_content_items example_outline two_page_doc =
     [TextItem ''Intro text'' 1 (0, 0, 100, 10), TextItem ''Body'' 1 (0, 40, 100, 50)] @
     HeadingMarker ''Title'' ''H1'' 2 # [TextItem ''More'' 2 (0, 5, 100, 15)] @ []"
  by code_simp

lemma two_page_threshold: "gap_threshold two_page_doc = 25"
  by code_simp

lemma two_page_preamble:
  "sectionize ''a.pdf'' 25
     [TextItem ''Intro text'' 1 (0, 0, 100, 10), TextItem ''Body'' 1 (0, 40, 100, 50)] =
     [\<lparr>document = ''a.pdf'', page_number = 1, section_title = ''Document Start'',
       section_text = ''Intro text'', level = ''H0''\<rparr>,
      \<lparr>document = ''a.pdf'', page_number = 1, section_title = ''Content'',
       section_text = ''Body'', level = ''H0''\<rparr>]"
  by code_simp

theorem heading_titles_and_preamble_witness:
  "all_content_items example_outline two_page_doc =
     [TextItem ''Intro text'' 1 (0, 0, 100, 10), TextItem ''Body'' 1 (0, 40, 100, 50)] @
     HeadingMarker ''Title'' ''H1'' 2 # [TextItem ''More'' 2 (0, 5, 100, 15)] @ [] \<and>
   (\<exists>after. extract_document_sections ''a.pdf'' example_outline two_page_doc =
      sectionize ''a.pdf'' 25
        [TextItem ''Intro text'' 1 (0, 0, 100, 10), TextItem ''Body'' 1 (0, 40, 100, 50)] @
      \<lparr>document = ''a.pdf'', page_number = 2, section_title = ''Title'',
       section_text = ''More'', level = ''H1''\<rparr> # after) \<and>
   list_all (\<lambda>s. level s = ''H0'')
     (sectionize ''a.pdf'' 25
        [TextItem ''Intro text'' 1 (0, 0, 100, 10), TextItem ''Body'' 1 (0, 40, 100, 50)]) \<and>
   map section_title
     (sectionize ''a.pdf'' 25
        [TextItem ''Intro text'' 1 (0, 0, 100, 10), TextItem ''Body'' 1 (0, 40, 100, 50)]) =
     [''Document Start'', ''Content'']"
  using heading_titles_and_preamble[of example_outline two_page_doc
      "[TextItem ''Intro text'' 1 (0, 0, 100, 10), TextItem ''Body'' 1 (0, 40, 100, 50)]"
      "''Title''" "''H1''" 2 "[TextItem ''More'' 2 (0, 5, 100, 15)]" "[]"
      "''a.pdf''"
      "[TextItem ''Intro text'' 1 (0, 0, 100, 10), TextItem ''Body'' 1 (0, 40, 100, 50)]"
      "[HeadingMarker ''Title'' ''H1'' 2, TextItem ''More'' 2 (0, 5, 100, 15)]"]
    two_page_items
  by (simp add: two_page_threshold two_page_preamble preamble_titles_def)

text \<open>
  Claim C5 as stated fails: \<open>example_doc\<close> has no heading at all, and the second of its
  two sections, opened by the gap between the two texts, is titled "Content", not
  "Document Start".
\<close>

theorem preamble_title_counterexample:
  "list_all is_text (all_content_items [] example_doc) \<and>
   map section_title (extract_document_sections ''a.pdf'' [] example_doc) =
     [''Document Start'', ''Content'']"
  by code_simp

section \<open>The gap threshold\<close>

text \<open>
  Claim C1 fails on the code. \<open>gap_threshold\<close> is computed once, after the loop over the
  pages, from the value of \<open>avg_line_height\<close> that the last page with a line left behind.
  In \<open>uneven_doc\<close> the two texts of page 1 are consecutive items on the same page, 30
  units apart, more than 2.5 times the average line height 10 of page 1; the threshold
  used is 2.5 times the average 20 of page 2, no boundary is triggered, and the whole
  document is one section.
\<close>

theorem gap_threshold_of_last_page:
  "all_content_items [] uneven_doc =
     [TextItem ''Intro text'' 1 (0, 0, 100, 10), TextItem ''Body'' 1 (0, 40, 100, 50),
      TextItem ''More'' 2 (0, 5, 100, 25)] \<and>
   np_mean (line_heights (hd uneven_doc)) = 10 \<and>
   bbox_top (0, 40, 100, 50) - bbox_bottom (0, 0, 100, 10) > 2.5 * np_mean (line_heights (hd uneven_doc)) \<and>
   gap_threshold uneven_doc = 50 \<and>
   extract_document_sections ''a.pdf'' [] uneven_doc =
     [\<lparr>document = ''a.pdf'', page_number = 1, section_title = ''Document Start'',
       section_text = ''Intro text'' @ [CHR 0x0A] @ ''Body'' @ [CHR 0x0A] @ ''More'',
       level = ''H0''\<rparr>]"
  by code_simp

section \<open>The relevance score\<close>

lemma fold_keyword_score:
  "distinct kws \<Longrightarrow>
   fold (\<lambda>kw score. if kw \<in> set toks then score + 2 else score) kws (acc::real) =
     acc + 2 * real (card (set kws \<inter> set toks))"
proof (induction kws arbitrary: acc)
  case Nil
  then show ?case by simp
next
  case (Cons kw kws)
  show ?case
  proof (cases "kw \<in> set toks")
    case True
    then have "set (kw # kws) \<inter> set toks = insert kw (set kws \<inter> set toks)"
      by auto
    moreover have "kw \<notin> set kws \<inter> set toks"
      using Cons.prems by simp
    ultimately have "card (set (kw # kws) \<inter> set toks) = Suc (card (set kws \<inter> set toks))"
      by simp
    then show ?thesis
      using Cons True by simp
  next
    case False
    then have "set (kw # kws) \<inter> set toks = set kws \<inter> set toks"
      by auto
    then show ?thesis
      using Cons False by simp
  qed
qed

lemma distinct_all_keywords: "distinct (all_keywords p job_text)"
  by (simp add: all_keywords_def)

lemma keyword_score_card:
  "keyword_score (all_keywords p job_text) (findall_words (lower text)) =
     2 * real (card (matching_keywords p job_text text))"
  by (simp add: keyword_score_def matching_keywords_def fold_keyword_score distinct_all_keywords)

lemma calculate_relevance_sum:
  "calculate_relevance text p job_text nlp_model =
     2 * real (card (matching_keywords p job_text text)) +
     embedding_contribution nlp_model text p job_text +
     short_bonus (all_keywords p job_text) text"
  by (simp add: calculate_relevance_def Let_def keyword_score_card)

lemma short_bonus_range: "0 \<le> short_bonus kws text \<and> short_bonus kws text \<le> 1"
  by (simp add: short_bonus_def)

lemma short_bonus_mono:
  "set kws \<subseteq> set kws' \<Longrightarrow> short_bonus kws text \<le> short_bonus kws' text"
  by (auto simp: short_bonus_def list_ex_iff)

text \<open>
  Claim C9. When no embedding model is available, or when the embedding step raises
  (\<open>encode\<close> on the query or on the text, or the cosine similarity), \<open>calculate_relevance\<close>
  returns the sum of the keyword-match term (2 for each distinct matching keyword) and the
  short-section bonus: the embedding contributes exactly 0. The result is a plain number:
  the exception value of the embedding step does not reach the caller.
\<close>

theorem embedding_failure_contributes_zero:
  "nlp_model = None \<or> (\<exists>m e. nlp_model = Some m \<and> embedding_term m text p job_text = Inl e) \<Longrightarrow>
   embedding_contribution nlp_model text p job_text = 0 \<and>
   calculate_relevance text p job_text nlp_model =
     keyword_score (all_keywords p job_text) (findall_words (lower text)) +
     short_bonus (all_keywords p job_text) text \<and>
   calculate_relevance text p job_text nlp_model =
     2 * real (card (matching_keywords p job_text text)) + short_bonus (all_keywords p job_text) text"
  by (auto simp: calculate_relevance_sum keyword_score_card embedding_contribution_def)

lemma failing_model_raises:
  "embedding_term failing_model ''The cat sat'' plain_persona ''buy cat food'' =
     Inl (Exception ''model unavailable'')"
  by (simp add: embedding_term_def failing_model_def)

lemma example_matching:
  "matching_keywords plain_persona ''buy cat food'' ''The cat sat'' = {''cat''}"
  by code_simp

lemma example_short_bonus:
  "short_bonus (all_keywords plain_persona ''buy cat food'') ''The cat sat'' = 1"
  by code_simp

theorem embedding_failure_contributes_zero_witness:
  "embedding_term failing_model ''The cat sat'' plain_persona ''buy cat food'' =
     Inl (Exception ''model unavailable'') \<and>
   embedding_contribution (Some failing_model) ''The cat sat'' plain_persona ''buy cat food'' = 0 \<and>
   calculate_relevance ''The cat sat'' plain_persona ''buy cat food'' (Some failing_model) = 3"
  using embedding_failure_contributes_zero[of "Some failing_model" "''The cat sat''" plain_persona
      "''buy cat food''"] failing_model_raises
  by (simp add: example_matching example_short_bonus)

lemma is_substring_append: "is_substring w ys \<Longrightarrow> is_substring w (xs @ ys)"
  by (induction xs) auto

lemma is_substring_prefix: "prefix w ys \<Longrightarrow> is_substring w ys"
  by (cases ys) auto

lemma runs_substring: "w \<in> set (runs P s) \<Longrightarrow> is_substring w s"
proof (induction P s rule: runs.induct)
  case (1 P)
  then show ?case by simp
next
  case (2 P c cs)
  show ?case
  proof (cases "P c")
    case True
    then consider "w = c # takeWhile P cs" | "w \<in> set (runs P (dropWhile P cs))"
      using "2.prems" by auto
    then show ?thesis
    proof cases
      case 1
      then have "prefix w (c # cs)"
        by (simp add: takeWhile_is_prefix)
      then show ?thesis
        by (rule is_substring_prefix)
    next
      case 2
      then have "is_substring w (dropWhile P cs)"
        using "2.IH"(1) True by simp
      then have "is_substring w (takeWhile P cs @ dropWhile P cs)"
        by (rule is_substring_append)
      then show ?thesis
        by simp
    qed
  next
    case False
    then show ?thesis
      using 2 by auto
  qed
qed

lemma short_bonus_matching:
  assumes "matching_keywords p job_text text \<noteq> {}"
  shows "short_bonus (all_keywords p job_text) text = (if length (str_split text) < 10 then 1 else 0)"
proof -
  obtain kw where kw: "kw \<in> set (all_keywords p job_text)" "kw \<in> set (findall_words (lower text))"
    using assms by (auto simp: matching_keywords_def)
  then have "is_substring kw (lower text)"
    by (simp add: findall_words_def runs_substring)
  then have "list_ex (\<lambda>kw. is_substring kw (lower text)) (all_keywords p job_text)"
    using kw(1) by (auto simp: list_ex_iff)
  then show ?thesis
    by (simp add: short_bonus_def)
qed

lemma relevance_mono_card:
  assumes emb: "embedding_contribution nlp_model text p job_text =
      embedding_contribution nlp_model text p' job_text'"
    and le: "card (matching_keywords p job_text text) \<le> card (matching_keywords p' job_text' text)"
    and ne: "matching_keywords p job_text text \<noteq> {}"
  shows "calculate_relevance text p job_text nlp_model \<le> calculate_relevance text p' job_text' nlp_model"
proof -
  have fin: "finite (matching_keywords p job_text text)"
    by (simp add: matching_keywords_def)
  then have "0 < card (matching_keywords p job_text text)"
    using ne by (simp add: card_gt_0_iff)
  then have "matching_keywords p' job_text' text \<noteq> {}"
    using le by auto
  then have "short_bonus (all_keywords p job_text) text = short_bonus (all_keywords p' job_text') text"
    using ne by (simp add: short_bonus_matching)
  then show ?thesis
    using emb le by (simp add: calculate_relevance_sum)
qed

text \<open>
  Claim C6, amended. The score is 2 for each distinct query keyword that is a token of the
  section text, plus the embedding contribution, plus the short-section bonus, whatever
  the number of occurrences of a keyword in the text. With the text and the embedding
  contribution fixed: a query whose keywords include those of another scores at least as
  much; a query with more matching keywords scores strictly more; and the score does not
  decrease with the number of matching keywords as long as the query with the fewer
  matches has at least one. (Between two queries without any exact match the score is
  not a function of the number of matches: the short-section bonus looks at substrings.)
\<close>

theorem relevance_monotone_in_matches:
  "calculate_relevance text p job_text nlp_model =
     2 * real (card (matching_keywords p job_text text)) +
     embedding_contribution nlp_model text p job_text +
     short_bonus (all_keywords p job_text) text \<and>
   (embedding_contribution nlp_model text p job_text =
      embedding_contribution nlp_model text p' job_text' \<and>
    set (all_keywords p job_text) \<subseteq> set (all_keywords p' job_text')
    \<longrightarrow> matching_keywords p job_text text \<subseteq> matching_keywords p' job_text' text \<and>
        calculate_relevance text p job_text nlp_model \<le>
        calculate_relevance text p' job_text' nlp_model) \<and>
   (embedding_contribution nlp_model text p job_text =
      embedding_contribution nlp_model text p' job_text' \<and>
    card (matching_keywords p job_text text) < card (matching_keywords p' job_text' text)
    \<longrightarrow> calculate_relevance text p job_text nlp_model <
        calculate_relevance text p' job_text' nlp_model) \<and>
   (embedding_contribution nlp_model text p job_text =
      embedding_contribution nlp_model text p' job_text' \<and>
    card (matching_keywords p job_text text) \<le> card (matching_keywords p' job_text' text) \<and>
    matching_keywords p job_text text \<noteq> {}
    \<longrightarrow> calculate_relevance text p job_text nlp_model \<le>
        calculate_relevance text p' job_text' nlp_model)"
proof (intro conjI impI)
  show "calculate_relevance text p job_text nlp_model =
     2 * real (card (matching_keywords p job_text text)) +
     embedding_contribution nlp_model text p job_text +
     short_bonus (all_keywords p job_text) text"
    by (rule calculate_relevance_sum)
next
  assume a: "embedding_contribution nlp_model text p job_text =
      embedding_contribution nlp_model text p' job_text' \<and>
    set (all_keywords p job_text) \<subseteq> set (all_keywords p' job_text')"
  then show sub: "matching_keywords p job_text text \<subseteq> matching_keywords p' job_text' text"
    by (auto simp: matching_keywords_def)
  have "finite (matching_keywords p' job_text' text)"
    by (simp add: matching_keywords_def)
  then have "card (matching_keywords p job_text text) \<le> card (matching_keywords p' job_text' text)"
    using sub by (rule card_mono)
  moreover have "short_bonus (all_keywords p job_text) text \<le> short_bonus (all_keywords p' job_text') text"
    using a by (simp add: short_bonus_mono)
  ultimately show "calculate_relevance text p job_text nlp_model \<le>
        calculate_relevance text p' job_text' nlp_model"
    using a by (simp add: calculate_relevance_sum)
next
  assume a: "embedding_contribution nlp_model text p job_text =
      embedding_contribution nlp_model text p' job_text' \<and>
    card (matching_keywords p job_text text) < card (matching_keywords p' job_text' text)"
  then have "real (card (matching_keywords p job_text text)) + 1 \<le>
      real (card (matching_keywords p' job_text' text))"
    by linarith
  moreover have "short_bonus (all_keywords p job_text) text \<le> 1"
    "0 \<le> short_bonus (all_keywords p' job_text') text"
    using short_bonus_range by blast+
  ultimately show "calculate_relevance text p job_text nlp_model <
        calculate_relevance text p' job_text' nlp_model"
    using a by (simp add: calculate_relevance_sum)
next
  assume "embedding_contribution nlp_model text p job_text =
      embedding_contribution nlp_model text p' job_text' \<and>
    card (matching_keywords p job_text text) \<le> card (matching_keywords p' job_text' text) \<and>
    matching_keywords p job_text text \<noteq> {}"
  then show "calculate_relevance text p job_text nlp_model \<le>
        calculate_relevance text p' job_text' nlp_model"
    using relevance_mono_card by blast
qed

lemma example_scores:
  "calculate_relevance ''The cat sat. The cat ate cat food.'' plain_persona ''buy cat''
     (None :: unit nlp_model option) = 3"
  "calculate_relevance ''The cat sat. The cat ate cat food.'' plain_persona ''buy cat food''
     (None :: unit nlp_model option) = 5"
  by code_simp+

lemma example_matches:
  "matching_keywords plain_persona ''buy cat'' ''The cat sat. The cat ate cat food.'' = {''cat''}"
  "matching_keywords plain_persona ''buy cat food'' ''The cat sat. The cat ate cat food.'' =
     {''cat'', ''food''}"
  by code_simp+

lemma example_keywords:
  "all_keywords plain_persona ''buy cat'' = [''buy'', ''cat'']"
  "all_keywords plain_persona ''buy cat food'' = [''buy'', ''cat'', ''food'']"
  by code_simp+

theorem relevance_monotone_in_matches_witness:
  "set (all_keywords plain_persona ''buy cat'') \<subseteq> set (all_keywords plain_persona ''buy cat food'') \<and>
   card (matching_keywords plain_persona ''buy cat'' ''The cat sat. The cat ate cat food.'') = 1 \<and>
   card (matching_keywords plain_persona ''buy cat food'' ''The cat sat. The cat ate cat food.'') = 2 \<and>
   matching_keywords plain_persona ''buy cat'' ''The cat sat. The cat ate cat food.'' \<noteq> {} \<and>
   calculate_relevance ''The cat sat. The cat ate cat food.'' plain_persona ''buy cat''
     (None :: unit nlp_model option) <
   calculate_relevance ''The cat sat. The cat ate cat food.'' plain_persona ''buy cat food''
     (None :: unit nlp_model option) \<and>
   calculate_relevance ''The cat sat. The cat ate cat food.'' plain_persona ''buy cat''
     (None :: unit nlp_model option) = 3 \<and>
   calculate_relevance ''The cat sat. The cat ate cat food.'' plain_persona ''buy cat food''
     (None :: unit nlp_model option) = 5"
  using relevance_monotone_in_matches[of "''The cat sat. The cat ate cat food.''" plain_persona
      "''buy cat''" "None :: unit nlp_model option" plain_persona "''buy cat food''"]
  by (simp add: example_matches example_keywords example_scores embedding_contribution_def)

text \<open>
  Claim C6 as stated fails: on the text "category theory", without a model, the queries
  "cat" and "dog" both have no exact match, yet the first scores 1 (the keyword is a
  substring of a text of fewer than 10 words) and the second scores 0.
\<close>

theorem relevance_bonus_counterexample:
  "card (matching_keywords plain_persona ''cat'' ''category theory'') = 0 \<and>
   card (matching_keywords plain_persona ''dog'' ''category theory'') = 0 \<and>
   calculate_relevance ''category theory'' plain_persona ''cat'' (None :: unit nlp_model option) = 1 \<and>
   calculate_relevance ''category theory'' plain_persona ''dog'' (None :: unit nlp_model option) = 0 \<and>
   \<not> calculate_relevance ''category theory'' plain_persona ''cat'' (None :: unit nlp_model option)
       \<le> calculate_relevance ''category theory'' plain_persona ''dog'' (None :: unit nlp_model option)"
  by code_simp

section \<open>Ranking\<close>

lemma rank_sections_sorted:
  "sorted_wrt (\<lambda>a b. rs_importance_rank a \<ge> rs_importance_rank b) (rank_sections scored)"
proof -
  have "sorted (map (\<lambda>x. - rs_importance_rank x) (rank_sections scored))"
    unfolding rank_sections_def by (rule sorted_sort_key)
  then show ?thesis
    by (simp add: sorted_map)
qed

lemma rank_sections_stable:
  "filter (\<lambda>s. rs_importance_rank s = v) (rank_sections scored) =
   filter (\<lambda>s. rs_importance_rank s = v) scored"
  using sort_key_stable[of "\<lambda>x. - rs_importance_rank x" "- v" scored]
  by (simp add: rank_sections_def)

lemma rank_sections_mset: "mset (rank_sections scored) = mset scored"
  by (simp add: rank_sections_def)

lemma output_ranks:
  "map out_importance_rank (final_extracted_sections_output ranked) = [1..<Suc (length ranked)]"
  by (rule nth_equalityI)
     (simp_all add: final_extracted_sections_output_def output_entry_def nth_enumerate_eq
        del: upt_Suc)

lemma output_fields:
  "map out_fields (final_extracted_sections_output ranked) = map rs_fields ranked"
  by (rule nth_equalityI)
     (simp_all add: final_extracted_sections_output_def output_entry_def nth_enumerate_eq
        out_fields_def rs_fields_def)

text \<open>
  Claim C3. Whenever a case is processed to its end, the output list stands entry by entry
  for the scored sections sorted by score: the scores do not increase along the list, the
  sorted list is a permutation of the scored one in which the sections of any one score
  keep their order of extraction, and the entry at position i (from 0) has importance rank
  i + 1, so the ranks are 1, 2, ..., K for the K sections.
\<close>

theorem ranks_dense_and_stable:
  "process_single_test_case p job semantic_model pdf_files = Inr (Some out) \<Longrightarrow>
   \<exists>scored. score_sections p job semantic_model (all_extracted_sections pdf_files) = Inr scored \<and>
     length out = length scored \<and>
     map out_importance_rank out = [1..<Suc (length scored)] \<and>
     map out_fields out = map rs_fields (rank_sections scored) \<and>
     sorted_wrt (\<lambda>a b. rs_importance_rank a \<ge> rs_importance_rank b) (rank_sections scored) \<and>
     mset (rank_sections scored) = mset scored \<and>
     (\<forall>v. filter (\<lambda>s. rs_importance_rank s = v) (rank_sections scored) =
          filter (\<lambda>s. rs_importance_rank s = v) scored)"
proof -
  assume a: "process_single_test_case p job semantic_model pdf_files = Inr (Some out)"
  then obtain scored where sc:
    "score_sections p job semantic_model (all_extracted_sections pdf_files) = Inr scored"
    and out: "out = final_extracted_sections_output (rank_sections scored)"
    by (auto simp: process_single_test_case_def split: if_splits sum.splits)
  have len: "length (rank_sections scored) = length scored"
    by (simp add: rank_sections_def)
  have "length out = length scored"
    using out len by (simp add: final_extracted_sections_output_def)
  moreover have "map out_importance_rank out = [1..<Suc (length scored)]"
    using out len by (simp add: output_ranks)
  moreover have "map out_fields out = map rs_fields (rank_sections scored)"
    using out by (simp add: output_fields)
  ultimately show ?thesis
    using sc rank_sections_sorted rank_sections_stable rank_sections_mset by blast
qed

lemma example_scored:
  "score_sections plain_persona ''buy cat food'' (None :: unit nlp_model option)
     (all_extracted_sections example_files) =
   Inr [\<lparr>rs_document = ''a.pdf'', rs_page_number = 1, rs_section_title = ''Document Start'',
         rs_importance_rank = 0, rs_section_text_raw = ''no match'', rs_keywords = [''match'']\<rparr>,
        \<lparr>rs_document = ''b.pdf'', rs_page_number = 1, rs_section_title = ''Document Start'',
         rs_importance_rank = 3, rs_section_text_raw = ''cat here'', rs_keywords = [''cat'']\<rparr>,
        \<lparr>rs_document = ''c.pdf'', rs_page_number = 1, rs_section_title = ''Document Start'',
         rs_importance_rank = 5, rs_section_text_raw = ''cat food'',
         rs_keywords = [''cat'', ''food'']\<rparr>,
        \<lparr>rs_document = ''d.pdf'', rs_page_number = 1, rs_section_title = ''Document Start'',
         rs_importance_rank = 3, rs_section_text_raw = ''food there'', rs_keywords = [''food'']\<rparr>]"
  by code_simp

lemma example_output:
  "process_single_test_case plain_persona ''buy cat food'' (None :: unit nlp_model option)
     example_files =
   Inr (Some
     [\<lparr>out_document = ''c.pdf'', out_page_number = 1, out_section_title = ''Document Start'',
       out_importance_rank = 1, out_section_text_raw = ''cat food'',
       out_refined_text = ''cat food'', out_keywords = [''cat'', ''food'']\<rparr>,
      \<lparr>out_document = ''b.pdf'', out_page_number = 1, out_section_title = ''Document Start'',
       out_importance_rank = 2, out_section_text_raw = ''cat here'',
       out_refined_text = ''cat here'', out_keywords = [''cat'']\<rparr>,
      \<lparr>out_document = ''d.pdf'', out_page_number = 1, out_section_title = ''Document Start'',
       out_importance_rank = 3, out_section_text_raw = ''food there'',
       out_refined_text = ''food there'', out_keywords = [''food'']\<rparr>,
      \<lparr>out_document = ''a.pdf'', out_page_number = 1, out_section_title = ''Document Start'',
       out_importance_rank = 4, out_section_text_raw = ''no match'',
       out_refined_text = ''no match'', out_keywords = [''match'']\<rparr>])"
  by code_simp

theorem ranks_dense_and_stable_witness:
  "map out_importance_rank
     (case process_single_test_case plain_persona ''buy cat food''
             (None :: unit nlp_model option) example_files of
        Inr (Some out) \<Rightarrow> out | _ \<Rightarrow> []) = [1, 2, 3, 4] \<and>
   map out_document
     (case process_single_test_case plain_persona ''buy cat food''
             (None :: unit nlp_model option) example_files of
        Inr (Some out) \<Rightarrow> out | _ \<Rightarrow> []) = [''c.pdf'', ''b.pdf'', ''d.pdf'', ''a.pdf''] \<and>
   map rs_importance_rank
     (rank_sections (case score_sections plain_persona ''buy cat food''
             (None :: unit nlp_model option) (all_extracted_sections example_files) of
        Inr scored \<Rightarrow> scored | Inl e \<Rightarrow> [])) = [5, 3, 3, 0]"
  using ranks_dense_and_stable[OF example_output]
  by (auto simp: example_output example_scored rank_sections_def)

section \<open>Refined text\<close>

lemma split_sentences_nonempty: "split_sentences t \<noteq> []"
  by (cases t) (auto split: list.splits)

lemma hd_split_sentences:
  "hd (split_sentences t) = [] \<longleftrightarrow> t = []"
  "t \<noteq> [] \<Longrightarrow> hd (hd (split_sentences t)) = hd t"
  by (cases t; auto split: list.splits)+

lemma is_terminal_not_space: "is_terminal c \<Longrightarrow> \<not> is_space c"
  by (auto simp: is_terminal_def is_space_def)

lemma split_single_Cons:
  assumes "split_sentences s = [s]" "\<not> (is_terminal c \<and> s \<noteq> [] \<and> is_space (hd s))"
  shows "split_sentences (c # s) = [c # s]"
  using assms by auto

lemma split_single_tail:
  assumes "split_sentences (c # s) = [c # s]"
  shows "split_sentences s = [s] \<and> \<not> (is_terminal c \<and> s \<noteq> [] \<and> is_space (hd s))"
proof (cases "is_terminal c \<and> s \<noteq> [] \<and> is_space (hd s)")
  case True
  then have "split_sentences (c # s) = [c] # split_sentences (dropWhile is_space s)"
    by simp
  then show ?thesis
    using assms True by auto
next
  case False
  then show ?thesis
    using assms split_sentences_nonempty[of s] by (auto split: list.splits)
qed

lemma split_after_sentence:
  assumes "split_sentences s = [s]" "s \<noteq> []" "is_terminal (last s)" "r = [] \<or> \<not> is_space (hd r)"
  shows "split_sentences (s @ '' '' @ r) = s # split_sentences r"
  using assms
proof (induction s)
  case Nil
  then show ?case by simp
next
  case (Cons c s)
  show ?case
  proof (cases "s = []")
    case True
    have "dropWhile is_space r = r"
      using Cons.prems(4) by (cases r) auto
    then show ?thesis
      using True Cons.prems(3) by (simp add: is_space_def)
  next
    case False
    have tail: "split_sentences s = [s]" "\<not> (is_terminal c \<and> is_space (hd s))"
      using split_single_tail[OF Cons.prems(1)] False by auto
    have "split_sentences (s @ '' '' @ r) = s # split_sentences r"
      using Cons.IH[OF tail(1) False _ Cons.prems(4)] Cons.prems(3) False by simp
    moreover have "hd (s @ '' '' @ r) = hd s"
      using False by simp
    ultimately show ?thesis
      using tail(2) by auto
  qed
qed

lemma wf_split_sentences: "wf_sentences (split_sentences t)"
proof (induction t rule: split_sentences.induct)
  case 1
  show ?case by simp
next
  case (2 c cs)
  show ?case
  proof (cases "is_terminal c \<and> cs \<noteq> [] \<and> is_space (hd cs)")
    case True
    let ?u = "dropWhile is_space cs"
    obtain r rs where rs: "split_sentences ?u = r # rs"
      using split_sentences_nonempty[of ?u] by (cases "split_sentences ?u") auto
    have "r = [] \<or> \<not> is_space (hd r)"
    proof (cases "?u = []")
      case True
      then show ?thesis
        using hd_split_sentences(1)[of ?u] rs by simp
    next
      case False
      then have "\<not> is_space (hd ?u)"
        by (rule hd_dropWhile)
      moreover have "hd r = hd ?u"
        using hd_split_sentences(2)[OF False] rs by simp
      ultimately show ?thesis by simp
    qed
    moreover have "wf_sentences (r # rs)"
      using "2.IH"(1) True rs by simp
    moreover have "split_sentences [c] = [[c]]"
      by simp
    ultimately show ?thesis
      using True rs by simp
  next
    case False
    obtain s ss where ss: "split_sentences cs = s # ss"
      using split_sentences_nonempty[of cs] by (cases "split_sentences cs") auto
    have wf: "wf_sentences (s # ss)"
      using "2.IH"(2) False ss by simp
    have single: "split_sentences s = [s]"
      using wf by (cases ss) auto
    have "s \<noteq> [] \<Longrightarrow> cs \<noteq> [] \<and> hd s = hd cs"
      using hd_split_sentences[of cs] ss by auto
    then have "\<not> (is_terminal c \<and> s \<noteq> [] \<and> is_space (hd s))"
      using False by auto
    then have "split_sentences (c # s) = [c # s]"
      using single by (rule split_single_Cons[rotated])
    moreover have "split_sentences (c # cs) = (c # s) # ss"
      using False ss by auto
    ultimately show ?thesis
      using wf by (cases ss) auto
  qed
qed

lemma split_join_sentences:
  "wf_sentences ss \<Longrightarrow> split_sentences (str_join '' '' ss) = ss"
proof (induction ss rule: wf_sentences.induct)
  case 1
  then show ?case by simp
next
  case (2 s)
  then show ?case by simp
next
  case (3 s r rs)
  let ?rest = "str_join '' '' (r # rs)"
  have "?rest = [] \<or> \<not> is_space (hd ?rest)"
  proof (cases rs)
    case Nil
    then show ?thesis using "3.prems" by simp
  next
    case (Cons q qs)
    then show ?thesis using "3.prems" by auto
  qed
  then have "split_sentences (s @ '' '' @ ?rest) = s # split_sentences ?rest"
    using "3.prems" by (intro split_after_sentence) auto
  then show ?case
    using 3 by simp
qed

lemma wf_take: "wf_sentences ss \<Longrightarrow> 0 < n \<Longrightarrow> wf_sentences (take n ss)"
proof (induction ss arbitrary: n rule: wf_sentences.induct)
  case 1
  then show ?case by simp
next
  case (2 s)
  then show ?case by (cases n) auto
next
  case (3 s r rs)
  show ?case
  proof (cases n)
    case 0
    then show ?thesis using "3.prems" by simp
  next
    case (Suc m)
    show ?thesis
    proof (cases m)
      case 0
      then show ?thesis using Suc "3.prems" by simp
    next
      case (Suc k)
      have "wf_sentences (take m (r # rs))"
        using "3.IH"[of m] "3.prems" Suc by simp
      then show ?thesis
        using \<open>n = Suc m\<close> Suc "3.prems" by simp
    qed
  qed
qed

lemma refined_text_take: "refined_text t = str_join '' '' (take 3 (split_sentences t))"
  by (simp add: refined_text_def Let_def min_def)

lemma split_refined_text: "split_sentences (refined_text t) = take 3 (split_sentences t)"
  unfolding refined_text_take
  by (rule split_join_sentences) (simp add: wf_take wf_split_sentences)

lemma output_refined:
  "o' \<in> set (final_extracted_sections_output ranked) \<Longrightarrow>
   out_refined_text o' = refined_text (out_section_text_raw o')"
  by (auto simp: final_extracted_sections_output_def output_entry_def)

text \<open>
  Claim C7. In the output of every case that is processed to its end, the refined text of
  a section is the join, with one space, of the first three sentences of its raw text (all
  of them when there are fewer), the sentences being the pieces between the runs of white
  space that follow a terminal character. Splitting the refined text again gives these
  same sentences back, so it has at most three.
\<close>

theorem refined_text_at_most_three:
  "process_single_test_case p job semantic_model pdf_files = Inr (Some out) \<Longrightarrow> o' \<in> set out \<Longrightarrow>
   out_refined_text o' = str_join '' '' (take 3 (split_sentences (out_section_text_raw o'))) \<and>
   split_sentences (out_refined_text o') = take 3 (split_sentences (out_section_text_raw o')) \<and>
   length (split_sentences (out_refined_text o')) \<le> 3"
proof -
  assume a: "process_single_test_case p job semantic_model pdf_files = Inr (Some out)"
    and b: "o' \<in> set out"
  from a obtain scored where "out = final_extracted_sections_output (rank_sections scored)"
    by (auto simp: process_single_test_case_def split: if_splits sum.splits)
  then have "out_refined_text o' = refined_text (out_section_text_raw o')"
    using b output_refined by blast
  then show ?thesis
    by (simp add: split_refined_text) (simp add: refined_text_take)
qed

lemma sentence_file_output:
  "process_single_test_case plain_persona ''buy cat food'' (None :: unit nlp_model option)
     sentence_file =
   Inr (Some
     [\<lparr>out_document = ''e.pdf'', out_page_number = 1, out_section_title = ''Document Start'',
       out_importance_rank = 1,
       out_section_text_raw = ''Hello world.  This is it! Really? Yes. No.'',
       out_refined_text = ''Hello world. This is it! Really?'',
       out_keywords = [''hello'', ''world'', ''really'', ''yes'']\<rparr>])"
  by code_simp

lemma example_sentences:
  "split_sentences ''Hello world.  This is it! Really? Yes. No.'' =
     [''Hello world.'', ''This is it!'', ''Really?'', ''Yes.'', ''No.'']"
  by code_simp

theorem refined_text_at_most_three_witness:
  "split_sentences ''Hello world.  This is it! Really? Yes. No.'' =
     [''Hello world.'', ''This is it!'', ''Really?'', ''Yes.'', ''No.''] \<and>
   map out_refined_text
     (case process_single_test_case plain_persona ''buy cat food''
             (None :: unit nlp_model option) sentence_file of
        Inr (Some out) \<Rightarrow> out | _ \<Rightarrow> []) = [''Hello world. This is it! Really?''] \<and>
   split_sentences ''Hello world. This is it! Really?'' =
     [''Hello world.'', ''This is it!'', ''Really?'']"
  using refined_text_at_most_three[OF sentence_file_output, of
      "\<lparr>out_document = ''e.pdf'', out_page_number = 1, out_section_title = ''Document Start'',
        out_importance_rank = 1,
        out_section_text_raw = ''Hello world.  This is it! Really? Yes. No.'',
        out_refined_text = ''Hello world. This is it! Really?'',
        out_keywords = [''hello'', ''world'', ''really'', ''yes'']\<rparr>"]
  by (simp del: split_sentences.simps add: sentence_file_output example_sentences)

section \<open>The keywords returned\<close>

lemma first_occurrences_snoc:
  "first_occurrences (ws @ [w]) =
     (if w \<in> set ws then first_occurrences ws else first_occurrences ws @ [w])"
  by (simp add: first_occurrences_def)

lemma set_first_occurrences: "set (first_occurrences ws) = set ws"
  by (simp add: first_occurrences_def)

lemma distinct_first_occurrences: "distinct (first_occurrences ws)"
  by (simp add: first_occurrences_def)

lemma counter_add_present:
  "w \<in> set ks \<Longrightarrow> distinct ks \<Longrightarrow>
   counter_add (map (\<lambda>k. (k, f k)) ks) w = map (\<lambda>k. (k, if k = w then Suc (f k) else f k)) ks"
  by (induction ks) auto

lemma counter_add_absent:
  "w \<notin> set ks \<Longrightarrow> counter_add (map (\<lambda>k. (k, f k)) ks) w = map (\<lambda>k. (k, f k)) ks @ [(w, 1)]"
  by (induction ks) auto

lemma Counter_snoc: "Counter (ws @ [w]) = counter_add (Counter ws) w"
  by (simp add: Counter_def)

lemma Counter_eq:
  "Counter ws = map (\<lambda>k. (k, count_list ws k)) (first_occurrences ws)"
proof (induction ws rule: rev_induct)
  case Nil
  show ?case by (simp add: Counter_def first_occurrences_def)
next
  case (snoc w ws)
  show ?case
  proof (cases "w \<in> set ws")
    case True
    then show ?thesis
      using snoc
      by (simp add: Counter_snoc first_occurrences_snoc counter_add_present
          set_first_occurrences distinct_first_occurrences)
  next
    case False
    then have "count_list ws w = 0"
      by (simp add: count_list_0_iff)
    then show ?thesis
      using snoc False
      by (auto simp: Counter_snoc first_occurrences_snoc counter_add_absent set_first_occurrences)
  qed
qed

lemma insort_key_map:
  "insort_key f (g x) (map g ys) = map g (insort_key (\<lambda>y. f (g y)) x ys)"
  by (induction ys) auto

lemma sort_key_map: "sort_key f (map g xs) = map g (sort_key (\<lambda>y. f (g y)) xs)"
  by (induction xs) (auto simp: insort_key_map)

lemma extract_keywords_eq:
  "extract_keywords text n =
     take n (sort_key (\<lambda>k. - int (count_list (keyword_candidates text) k))
               (first_occurrences (keyword_candidates text)))"
  by (simp add: extract_keywords_def most_common_def Counter_eq sort_key_map take_map comp_def)

lemma insort_key_stable_order:
  fixes f :: "'a \<Rightarrow> int" and p :: "'a \<Rightarrow> nat"
  assumes "sorted_wrt (\<lambda>a b. f a < f b \<or> (f a = f b \<and> p a < p b)) ys"
    and "\<forall>y\<in>set ys. p x < p y"
  shows "sorted_wrt (\<lambda>a b. f a < f b \<or> (f a = f b \<and> p a < p b)) (insort_key f x ys)"
  using assms
proof (induction ys)
  case Nil
  then show ?case by simp
next
  case (Cons y ys)
  show ?case
  proof (cases "f x \<le> f y")
    case True
    have "\<forall>z\<in>set (y # ys). f x < f z \<or> (f x = f z \<and> p x < p z)"
      using Cons.prems True by fastforce
    then show ?thesis
      using Cons.prems(1) True by simp
  next
    case False
    have "sorted_wrt (\<lambda>a b. f a < f b \<or> (f a = f b \<and> p a < p b)) (insort_key f x ys)"
      using Cons by simp
    then show ?thesis
      using Cons.prems(1) False by (auto simp: set_insort_key)
  qed
qed

lemma sort_key_stable_order:
  fixes f :: "'a \<Rightarrow> int" and p :: "'a \<Rightarrow> nat"
  assumes "sorted_wrt (\<lambda>a b. p a < p b) xs"
  shows "sorted_wrt (\<lambda>a b. f a < f b \<or> (f a = f b \<and> p a < p b)) (sort_key f xs)"
  using assms
proof (induction xs)
  case Nil
  then show ?case by simp
next
  case (Cons x xs)
  then show ?case
    by (simp add: insort_key_stable_order)
qed

lemma first_index_snoc_old: "k \<in> set ws \<Longrightarrow> first_index (ws @ [w]) k = first_index ws k"
  unfolding first_index_def by (induction ws) auto

lemma first_index_less: "k \<in> set ws \<Longrightarrow> first_index ws k < length ws"
  unfolding first_index_def by (induction ws) auto

lemma first_index_snoc_new: "w \<notin> set ws \<Longrightarrow> first_index (ws @ [w]) w = length ws"
  unfolding first_index_def by (induction ws) auto

lemma first_occurrences_sorted:
  "sorted_wrt (\<lambda>a b. first_index ws a < first_index ws b) (first_occurrences ws)"
proof (induction ws rule: rev_induct)
  case Nil
  show ?case by (simp add: first_occurrences_def)
next
  case (snoc w ws)
  have old: "sorted_wrt (\<lambda>a b. first_index (ws @ [w]) a < first_index (ws @ [w]) b)
               (first_occurrences ws)"
    by (rule sorted_wrt_mono_rel[OF _ snoc])
       (simp add: first_index_snoc_old set_first_occurrences)
  show ?case
  proof (cases "w \<in> set ws")
    case True
    then show ?thesis
      using old by (simp add: first_occurrences_snoc)
  next
    case False
    then show ?thesis
      using old
      by (simp add: first_occurrences_snoc sorted_wrt_append set_first_occurrences
          first_index_snoc_old first_index_snoc_new first_index_less)
  qed
qed

lemma sorted_candidates:
  "sorted_wrt (keyword_order ws)
     (sort_key (\<lambda>k. - int (count_list ws k)) (first_occurrences ws))"
proof -
  have "sorted_wrt (\<lambda>a b. - int (count_list ws a) < - int (count_list ws b) \<or>
           (- int (count_list ws a) = - int (count_list ws b) \<and> first_index ws a < first_index ws b))
         (sort_key (\<lambda>k. - int (count_list ws k)) (first_occurrences ws))"
    by (rule sort_key_stable_order) (rule first_occurrences_sorted)
  then show ?thesis
    by (rule sorted_wrt_mono_rel[rotated]) (auto simp: keyword_order_def)
qed

lemma set_runs: "w \<in> set (runs P s) \<Longrightarrow> set w \<subseteq> set s"
proof (induction P s rule: runs.induct)
  case (1 P)
  then show ?case by simp
next
  case (2 P c cs)
  show ?case
  proof (cases "P c")
    case True
    then consider "w = c # takeWhile P cs" | "w \<in> set (runs P (dropWhile P cs))"
      using "2.prems" by auto
    then show ?thesis
    proof cases
      case 1
      then show ?thesis
        by (auto dest: set_takeWhileD)
    next
      case 2
      then have "set w \<subseteq> set (dropWhile P cs)"
        using "2.IH"(1) True by simp
      then show ?thesis
        by (auto dest: set_dropWhileD)
    qed
  next
    case False
    then show ?thesis
      using 2 by auto
  qed
qed

lemma lower_char_alpha: "is_alpha (lower_char d) \<Longrightarrow> lower_char d \<in> set ascii_lowercase"
  by (simp add: is_alpha_def lower_char_def ascii_lowercase_def ascii_uppercase_def
      split: if_splits)

lemma candidate_properties:
  assumes "k \<in> set (keyword_candidates text)"
  shows "3 \<le> length k \<and> length k \<le> 15 \<and> set k \<subseteq> set ascii_lowercase \<and> k \<notin> set STOP_WORDS"
proof -
  have k: "k \<in> set (runs is_word_char (lower text))" "3 \<le> length k" "length k \<le> 15"
    "isalpha k" "k \<notin> set STOP_WORDS"
    using assms by (auto simp: keyword_candidates_def findall_words_3_15_def)
  have "set k \<subseteq> set ascii_lowercase"
  proof
    fix c
    assume c: "c \<in> set k"
    then have "c \<in> set (lower text)"
      using set_runs[OF k(1)] by auto
    then obtain d where "c = lower_char d"
      by (auto simp: lower_def)
    moreover have "is_alpha c"
      using k(4) c by (simp add: isalpha_def list_all_iff)
    ultimately show "c \<in> set ascii_lowercase"
      using lower_char_alpha by simp
  qed
  then show ?thesis
    using k by simp
qed

lemma example_keywords_cat:
  "extract_keywords ''The cat sat on the mat. The cat ran.'' 2 = [''cat'', ''sat'']"
  "keyword_candidates ''The cat sat on the mat. The cat ran.'' =
     [''cat'', ''sat'', ''mat'', ''cat'', ''ran'']"
  by code_simp+

text \<open>
  Claim C8. For every text and count N, \<open>extract_keywords\<close> returns at most N words; each
  of them has 3 to 15 characters, all of them lowercase letters, and is not a stop word;
  the words returned are the first N (all, when there are fewer) of the distinct candidate
  words of the text put in the order of descending frequency, words of equal frequency in
  the order of their first occurrence. On "The cat sat on the mat. The cat ran." with N = 2
  the result is "cat", of frequency 2, followed by "sat".
\<close>

theorem extract_keywords_top_frequent:
  "length (extract_keywords text n) \<le> n \<and>
   (\<forall>k \<in> set (extract_keywords text n).
      3 \<le> length k \<and> length k \<le> 15 \<and> set k \<subseteq> set ascii_lowercase \<and> k \<notin> set STOP_WORDS) \<and>
   (\<exists>rest. distinct (extract_keywords text n @ rest) \<and>
      set (extract_keywords text n @ rest) = set (keyword_candidates text) \<and>
      sorted_wrt (keyword_order (keyword_candidates text)) (extract_keywords text n @ rest) \<and>
      length (extract_keywords text n) = min n (length (extract_keywords text n @ rest))) \<and>
   extract_keywords ''The cat sat on the mat. The cat ran.'' 2 = [''cat'', ''sat''] \<and>
   count_list (keyword_candidates ''The cat sat on the mat. The cat ran.'') ''cat'' = 2"
proof -
  let ?ws = "keyword_candidates text"
  let ?all = "sort_key (\<lambda>k. - int (count_list ?ws k)) (first_occurrences ?ws)"
  have ks: "extract_keywords text n = take n ?all"
    by (rule extract_keywords_eq)
  have all: "distinct ?all" "set ?all = set ?ws" "sorted_wrt (keyword_order ?ws) ?all"
    by (simp_all add: distinct_first_occurrences set_first_occurrences sorted_candidates)
  have len: "length (extract_keywords text n) \<le> n"
    using ks by simp
  have props: "\<forall>k \<in> set (extract_keywords text n).
      3 \<le> length k \<and> length k \<le> 15 \<and> set k \<subseteq> set ascii_lowercase \<and> k \<notin> set STOP_WORDS"
  proof
    fix k
    assume "k \<in> set (extract_keywords text n)"
    then have "k \<in> set ?all"
      using ks by (auto dest: in_set_takeD)
    then have "k \<in> set ?ws"
      using all(2) by simp
    then show "3 \<le> length k \<and> length k \<le> 15 \<and> set k \<subseteq> set ascii_lowercase \<and> k \<notin> set STOP_WORDS"
      by (rule candidate_properties)
  qed
  have "extract_keywords text n @ drop n ?all = ?all"
    using ks by simp
  then have rest: "\<exists>rest. distinct (extract_keywords text n @ rest) \<and>
      set (extract_keywords text n @ rest) = set (keyword_candidates text) \<and>
      sorted_wrt (keyword_order (keyword_candidates text)) (extract_keywords text n @ rest) \<and>
      length (extract_keywords text n) = min n (length (extract_keywords text n @ rest))"
    using all ks by (intro exI[of _ "drop n ?all"]) (simp add: min.commute)
  have "count_list (keyword_candidates ''The cat sat on the mat. The cat ran.'') ''cat'' = 2"
    by (simp add: example_keywords_cat(2))
  then show ?thesis
    using len props rest example_keywords_cat(1) by blast
qed

theorem extract_keywords_top_frequent_witness:
  "extract_keywords ''The cat sat on the mat. The cat ran.'' 2 = [''cat'', ''sat''] \<and>
   length (extract_keywords ''The cat sat on the mat. The cat ran.'' 2) \<le> 2 \<and>
   set ''cat'' \<subseteq> set ascii_lowercase \<and> ''cat'' \<notin> set STOP_WORDS \<and>
   keyword_order (keyword_candidates ''The cat sat on the mat. The cat ran.'') ''cat'' ''sat''"
  using extract_keywords_top_frequent[of "''The cat sat on the mat. The cat ran.''" 2]
  by (auto simp: example_keywords_cat)

end
